theory Spec2Isabelle
  imports Main "HOL-Library.AList"
begin

section \<open>JavaScript values, objects and the heap\<close>

text \<open>
  The records handled by the server arrive as parsed JSON, so a field can hold any JSON
  value. Objects are mutable and shared by reference: the sanitizer writes into an object
  that the caller still holds. Values are therefore primitives or references into an
  explicit heap.

  Scope of the model:
  \<^item> numbers are integers (timestamps are epoch milliseconds); NaN, infinities and
    fractions are outside the model;
  \<^item> a string is a list of 8-bit characters, read as the Latin-1 range of JavaScript's
    UTF-16 code units;
  \<^item> a heap object is a plain object: the list of its own enumerable properties in
    insertion order, without prototype chain; JSON arrays are outside the model;
  \<^item> an address is an index into the heap, and allocation appends.
\<close>

datatype jsval =
    JUndefined
  | JNull
  | JBool bool
  | JNum int
  | JStr string
  | JRef nat

type_synonym jsobj = "(string \<times> jsval) list"

type_synonym heap = "jsobj list"

datatype error =
    TypeError
  | Unmodelled  \<comment> \<open>coercion of a string or an object to a number, which the model leaves out\<close>

definition hget :: "heap \<Rightarrow> nat \<Rightarrow> jsobj" where
  "hget h a = (if a < length h then h ! a else [])"

definition getProp :: "jsobj \<Rightarrow> string \<Rightarrow> jsval" where
  \<comment> \<open>\<open>obj.k\<close>: an absent property reads as \<open>undefined\<close>\<close>
  "getProp obj k = (case map_of obj k of None \<Rightarrow> JUndefined | Some v \<Rightarrow> v)"

definition hasProp :: "jsobj \<Rightarrow> string \<Rightarrow> bool" where
  \<comment> \<open>\<open>k in obj\<close>\<close>
  "hasProp obj k = (map_of obj k \<noteq> None)"

definition setProp :: "heap \<Rightarrow> nat \<Rightarrow> string \<Rightarrow> jsval \<Rightarrow> heap" where
  \<comment> \<open>\<open>obj.k = v\<close> on the object at address \<open>a\<close>: an existing property keeps its place,
      a new one is appended\<close>
  "setProp h a k v = (if a < length h then h[a := AList.update k v (h ! a)] else h)"

fun truthy :: "jsval \<Rightarrow> bool" where
  "truthy JUndefined = False"
| "truthy JNull = False"
| "truthy (JBool b) = b"
| "truthy (JNum n) = (n \<noteq> 0)"
| "truthy (JStr s) = (s \<noteq> [])"
| "truthy (JRef a) = True"

fun typeof :: "jsval \<Rightarrow> string" where
  "typeof JUndefined = ''undefined''"
| "typeof JNull = ''object''"
| "typeof (JBool b) = ''boolean''"
| "typeof (JNum n) = ''number''"
| "typeof (JStr s) = ''string''"
| "typeof (JRef a) = ''object''"

section \<open>String operations\<close>

definition lowerChar :: "char \<Rightarrow> char" where
  \<comment> \<open>\<open>toLowerCase\<close> on one Latin-1 code unit: A-Z, and U+00C0..U+00DE except U+00D7\<close>
  "lowerChar c =
     (let n = (of_char c :: nat)
      in if (65 \<le> n \<and> n \<le> 90) \<or> (192 \<le> n \<and> n \<le> 222 \<and> n \<noteq> 215)
         then char_of (n + 32) else c)"

definition toLowerCase :: "string \<Rightarrow> string" where
  "toLowerCase s = map lowerChar s"

definition startsWith :: "string \<Rightarrow> string \<Rightarrow> bool" where
  "startsWith s p = (take (length p) s = p)"

fun strIncludes :: "string \<Rightarrow> string \<Rightarrow> bool" where
  \<comment> \<open>\<open>s.includes(sub)\<close>: \<open>sub\<close> occurs in \<open>s\<close> as a contiguous run\<close>
  "strIncludes [] sub = (sub = [])"
| "strIncludes (c # cs) sub = (startsWith (c # cs) sub \<or> strIncludes cs sub)"

definition substring0 :: "string \<Rightarrow> nat \<Rightarrow> string" where
  \<comment> \<open>\<open>s.substring(0, n)\<close>\<close>
  "substring0 s n = take n s"

section \<open>The two scrubbing regular expressions\<close>

text \<open>
  \<open>sanitizeElement\<close> removes every match of two regular expressions from the html
  field, both with the flags \<open>gi\<close>. Neither expression can match in two ways from one
  start position (each starred class is followed by a character outside the class), so
  each is a deterministic scan.
\<close>

definition isWordChar :: "char \<Rightarrow> bool" where
  \<comment> \<open>\<open>\w\<close>\<close>
  "isWordChar c =
     (let n = (of_char c :: nat)
      in (48 \<le> n \<and> n \<le> 57) \<or> (65 \<le> n \<and> n \<le> 90) \<or> n = 95 \<or> (97 \<le> n \<and> n \<le> 122))"

definition isSpace :: "char \<Rightarrow> bool" where
  \<comment> \<open>\<open>\s\<close> within Latin-1: tab, LF, VT, FF, CR, space, no-break space\<close>
  "isSpace c = (let n = (of_char c :: nat) in (9 \<le> n \<and> n \<le> 13) \<or> n = 32 \<or> n = 160)"

fun matchLit :: "string \<Rightarrow> string \<Rightarrow> string option" where
  \<comment> \<open>match a lower-case literal at the start of the input, ignoring case; the rest of the
      input on success\<close>
  "matchLit [] s = Some s"
| "matchLit (p # ps) [] = None"
| "matchLit (p # ps) (c # cs) = (if lowerChar c = p then matchLit ps cs else None)"

fun scriptBody :: "string \<Rightarrow> string option" where
  \<comment> \<open>\<open>[^<]*(?:(?!<\/script>)<[^<]*)*<\/script>\<close>\<close>
  "scriptBody [] = None"
| "scriptBody (c # cs) =
     (if c \<noteq> CHR ''<'' then scriptBody cs
      else (case matchLit ''</script>'' (c # cs) of
              Some rest \<Rightarrow> Some rest
            | None \<Rightarrow> scriptBody cs))"

definition matchScript :: "string \<Rightarrow> string option" where
  \<comment> \<open>\<open><script\b[^<]*(?:(?!<\/script>)<[^<]*)*<\/script>\<close> at the start of the input\<close>
  "matchScript s =
     (case matchLit ''<script'' s of
        None \<Rightarrow> None
      | Some rest \<Rightarrow>
          (if (case rest of [] \<Rightarrow> True | c # _ \<Rightarrow> \<not> isWordChar c)
           then scriptBody rest else None))"

definition matchHandler :: "string \<Rightarrow> string option" where
  \<comment> \<open>\<open>\son\w+="[^"]*"\<close> at the start of the input\<close>
  "matchHandler s =
     (case s of
        [] \<Rightarrow> None
      | c # cs \<Rightarrow>
          if \<not> isSpace c then None
          else (case matchLit ''on'' cs of
                  None \<Rightarrow> None
                | Some r1 \<Rightarrow>
                    let r2 = dropWhile isWordChar r1
                    in if length r2 = length r1 then None
                       else (case matchLit [CHR ''='', CHR 0x22] r2 of
                               None \<Rightarrow> None
                             | Some r3 \<Rightarrow>
                                 (case dropWhile (\<lambda>x. x \<noteq> CHR 0x22) r3 of
                                    [] \<Rightarrow> None
                                  | q # r4 \<Rightarrow> Some r4))))"

lemma matchLit_length: "matchLit p s = Some r \<Longrightarrow> length r + length p = length s"
  by (induction p s rule: matchLit.induct) (auto split: if_splits)

lemma scriptBody_length: "scriptBody s = Some r \<Longrightarrow> length r < length s"
proof (induction s)
  case Nil
  then show ?case by simp
next
  case (Cons c cs)
  show ?case
  proof (cases "matchLit ''</script>'' (c # cs)")
    case None
    with Cons show ?thesis by (auto split: if_splits)
  next
    case (Some rest)
    have "length rest < length (c # cs)"
      using matchLit_length [OF Some] by simp
    with Cons Some show ?thesis by (auto split: if_splits)
  qed
qed

lemma matchScript_length: "matchScript s = Some r \<Longrightarrow> length r < length s"
  unfolding matchScript_def
  by (auto split: option.splits if_splits dest!: matchLit_length scriptBody_length)

lemma matchHandler_length: "matchHandler s = Some r \<Longrightarrow> length r < length s"
proof -
  assume m: "matchHandler s = Some r"
  then obtain c cs where s: "s = c # cs"
    by (cases s) (auto simp: matchHandler_def)
  from m s obtain r1 where r1: "matchLit ''on'' cs = Some r1"
    by (auto simp: matchHandler_def split: if_splits option.splits)
  from m s r1 obtain r3 where r3: "matchLit [CHR ''='', CHR 0x22] (dropWhile isWordChar r1) = Some r3"
    by (auto simp: matchHandler_def Let_def split: if_splits option.splits)
  from m s r1 r3 obtain q where q: "dropWhile (\<lambda>x. x \<noteq> CHR 0x22) r3 = q # r"
    by (auto simp: matchHandler_def Let_def split: if_splits option.splits list.splits)
  have "length (q # r) \<le> length r3"
    unfolding q [symmetric] by (rule length_dropWhile_le)
  moreover have "length r3 \<le> length (dropWhile isWordChar r1)"
    using matchLit_length [OF r3] by simp
  moreover have "length (dropWhile isWordChar r1) \<le> length r1"
    by (rule length_dropWhile_le)
  moreover have "length r1 \<le> length cs"
    using matchLit_length [OF r1] by simp
  ultimately show ?thesis using s by simp
qed

function removeScripts :: "string \<Rightarrow> string" where
  \<comment> \<open>\<open>html.replace(/<script...<\/script>/gi, '')\<close>: leftmost matches, left to right\<close>
  "removeScripts [] = []"
| "removeScripts (c # cs) =
     (case matchScript (c # cs) of
        Some rest \<Rightarrow> removeScripts rest
      | None \<Rightarrow> c # removeScripts cs)"
  by pat_completeness auto
termination
  by (relation "measure length") (auto dest: matchScript_length)

function removeHandlers :: "string \<Rightarrow> string" where
  \<comment> \<open>\<open>html.replace(/\son\w+="[^"]*"/gi, '')\<close>\<close>
  "removeHandlers [] = []"
| "removeHandlers (c # cs) =
     (case matchHandler (c # cs) of
        Some rest \<Rightarrow> removeHandlers rest
      | None \<Rightarrow> c # removeHandlers cs)"
  by pat_completeness auto
termination
  by (relation "measure length") (auto dest: matchHandler_length)

section \<open>schema.js: validation and sanitization\<close>

definition required :: "string list" where
  "required = [''id'', ''timestamp'', ''url'', ''selector'', ''html'', ''text'']"

definition validateCapturedElement :: "heap \<Rightarrow> jsval \<Rightarrow> bool" where
  "validateCapturedElement h data =
     (if \<not> truthy data \<or> typeof data \<noteq> ''object'' then False
      else (case data of
              JRef a \<Rightarrow>
                (let obj = hget h a
                 in if \<not> list_all (hasProp obj) required then False
                    else if (case getProp obj ''id'' of JStr s \<Rightarrow> s = [] | _ \<Rightarrow> True) then False
                    else if (case getProp obj ''timestamp'' of JNum n \<Rightarrow> n \<le> 0 | _ \<Rightarrow> True) then False
                    else if (case getProp obj ''url'' of JStr u \<Rightarrow> \<not> startsWith u ''http'' | _ \<Rightarrow> True) then False
                    else if (case getProp obj ''selector'' of JStr s \<Rightarrow> s = [] | _ \<Rightarrow> True) then False
                    else True)
            | _ \<Rightarrow> False))"

definition sensitiveAttrs :: "string list" where
  "sensitiveAttrs = [''password'', ''token'', ''secret'', ''key'', ''auth'']"

definition isSensitive :: "string \<Rightarrow> bool" where
  \<comment> \<open>\<open>sensitiveAttrs.some(s => attr.toLowerCase().includes(s))\<close>\<close>
  "isSensitive attr = list_ex (\<lambda>s. strIncludes (toLowerCase attr) s) sensitiveAttrs"

definition REDACTED :: jsval where
  "REDACTED = JStr ''[REDACTED]''"

definition TRUNCATED :: string where
  "TRUNCATED = ''... [TRUNCATED]''"

definition MAX_HTML_SIZE :: nat where "MAX_HTML_SIZE = 50000"
definition MAX_TEXT_SIZE :: nat where "MAX_TEXT_SIZE = 10000"
definition MAX_SCREENSHOT_SIZE :: nat where "MAX_SCREENSHOT_SIZE = 1000000"

definition redactObject :: "jsobj \<Rightarrow> jsobj" where
  \<comment> \<open>the \<open>for (const attr in attributes)\<close> loop over the keys of the object; an
      assignment to an existing key keeps the key's place\<close>
  "redactObject obj =
     fold (\<lambda>attr o'. if isSensitive attr then AList.update attr REDACTED o' else o')
          (map fst obj) obj"

definition scrubHtml :: "heap \<Rightarrow> nat \<Rightarrow> error + heap" where
  \<comment> \<open>lines 81-85: a truthy html that is not a string has no \<open>replace\<close> method\<close>
  "scrubHtml h sanitized =
     (let html = getProp (hget h sanitized) ''html''
      in if truthy html
         then (case html of
                 JStr x \<Rightarrow> Inr (setProp h sanitized ''html'' (JStr (removeHandlers (removeScripts x))))
               | _ \<Rightarrow> Inl TypeError)
         else Inr h)"

definition redactAttributes :: "heap \<Rightarrow> nat \<Rightarrow> heap" where
  \<comment> \<open>lines 88-95. The write goes to the object that \<open>sanitized.attributes\<close> refers to.
      A primitive has no matching key: a string enumerates its decimal indices, the
      other primitives enumerate nothing.\<close>
  "redactAttributes h sanitized =
     (let attributes = getProp (hget h sanitized) ''attributes''
      in if truthy attributes
         then (case attributes of
                 JRef b \<Rightarrow> (if b < length h then h[b := redactObject (h ! b)] else h)
               | _ \<Rightarrow> h)
         else h)"

definition exceeds :: "heap \<Rightarrow> jsval \<Rightarrow> nat \<Rightarrow> error + bool" where
  \<comment> \<open>\<open>v && v.length > max\<close>. A number or a boolean has no \<open>length\<close>, and
      \<open>undefined > max\<close> is false. An object answers with its own \<open>length\<close> property.\<close>
  "exceeds h v lim =
     (if \<not> truthy v then Inr False
      else (case v of
              JStr x \<Rightarrow> Inr (length x > lim)
            | JRef b \<Rightarrow>
                (case getProp (hget h b) ''length'' of
                   JNum n \<Rightarrow> Inr (n > int lim)
                 | JUndefined \<Rightarrow> Inr False
                 | JNull \<Rightarrow> Inr False
                 | JBool t \<Rightarrow> Inr ((if t then 1 else 0) > lim)
                 | JStr _ \<Rightarrow> Inl Unmodelled
                 | JRef _ \<Rightarrow> Inl Unmodelled)
            | _ \<Rightarrow> Inr False))"

definition truncateField :: "heap \<Rightarrow> nat \<Rightarrow> string \<Rightarrow> nat \<Rightarrow> error + heap" where
  \<comment> \<open>lines 102-108, for \<open>html\<close> and for \<open>text\<close>: only a string has \<open>substring\<close>\<close>
  "truncateField h sanitized field lim =
     (let v = getProp (hget h sanitized) field
      in case exceeds h v lim of
           Inl e \<Rightarrow> Inl e
         | Inr False \<Rightarrow> Inr h
         | Inr True \<Rightarrow>
             (case v of
                JStr x \<Rightarrow> Inr (setProp h sanitized field (JStr (substring0 x lim @ TRUNCATED)))
              | _ \<Rightarrow> Inl TypeError))"

definition dropScreenshot :: "heap \<Rightarrow> nat \<Rightarrow> error + heap" where
  \<comment> \<open>lines 110-113\<close>
  "dropScreenshot h sanitized =
     (case exceeds h (getProp (hget h sanitized) ''screenshot'') MAX_SCREENSHOT_SIZE of
        Inl e \<Rightarrow> Inl e
      | Inr False \<Rightarrow> Inr h
      | Inr True \<Rightarrow>
          Inr (setProp (setProp h sanitized ''screenshot'' (JStr [])) sanitized
                 ''_screenshotTruncated'' (JBool True)))"

definition sanitizeElement :: "heap \<Rightarrow> nat \<Rightarrow> (error + nat) \<times> heap" where
  \<comment> \<open>\<open>element\<close> is the address of the caller's object. The result is the address of
      \<open>sanitized\<close>, or the exception thrown, with the heap as the call leaves it.\<close>
  "sanitizeElement h element =
     (let sanitized = length h;
          h0 = h @ [hget h element]
      in case scrubHtml h0 sanitized of
           Inl e \<Rightarrow> (Inl e, h0)
         | Inr h1 \<Rightarrow>
             (let h2 = redactAttributes h1 sanitized
              in case truncateField h2 sanitized ''html'' MAX_HTML_SIZE of
                   Inl e \<Rightarrow> (Inl e, h2)
                 | Inr h3 \<Rightarrow>
                     (case truncateField h3 sanitized ''text'' MAX_TEXT_SIZE of
                        Inl e \<Rightarrow> (Inl e, h3)
                      | Inr h4 \<Rightarrow>
                          (case dropScreenshot h4 sanitized of
                             Inl e \<Rightarrow> (Inl e, h4)
                           | Inr h5 \<Rightarrow> (Inr sanitized, h5)))))"

section \<open>ElementStorage\<close>

text \<open>
  \<open>this.elements\<close> is a JavaScript \<open>Map\<close>: it iterates in the order in which its
  keys were first inserted, \<open>set\<close> on a key that is present overwrites the value in
  place, and \<open>delete\<close> frees the key's position. It is an association list with
  \<open>AList.update\<close> and \<open>AList.delete\<close>. An entry holds the address of the sanitized
  object. \<open>Date.now()\<close> is the argument \<open>now\<close> of each operation. Console output is
  not part of the model.

  Interval timers live in the runtime: \<open>setInterval\<close> returns a new handle (an object
  in Node, so always truthy) and \<open>clearInterval\<close> deactivates one.
\<close>

record entry =
  data :: nat
  expiresAt :: int

record storage =
  elements :: "(jsval \<times> entry) list"
  maxElements :: int
  ttl :: int
  cleanupInterval :: int
  cleanupTimer :: "nat option"

record options =
  optMaxElements :: "int option"
  optTtl :: "int option"
  optCleanupInterval :: "int option"

record runtime =
  nextTimer :: nat
  activeTimers :: "nat list"

definition setInterval :: "runtime \<Rightarrow> nat \<times> runtime" where
  "setInterval rt =
     (nextTimer rt,
      rt\<lparr>nextTimer := Suc (nextTimer rt), activeTimers := activeTimers rt @ [nextTimer rt]\<rparr>)"

definition clearInterval :: "nat \<Rightarrow> runtime \<Rightarrow> runtime" where
  "clearInterval t rt = rt\<lparr>activeTimers := removeAll t (activeTimers rt)\<rparr>"

definition orDefault :: "int option \<Rightarrow> int \<Rightarrow> int" where
  \<comment> \<open>\<open>options.x || d\<close>: an absent option and the number 0 are falsy\<close>
  "orDefault x d = (case x of None \<Rightarrow> d | Some n \<Rightarrow> if n = 0 then d else n)"

definition newElementStorage :: "options \<Rightarrow> runtime \<Rightarrow> storage \<times> runtime" where
  "newElementStorage opts rt =
     (let (t, rt') = setInterval rt
      in (\<lparr>elements = [],
           maxElements = orDefault (optMaxElements opts) 50,
           ttl = orDefault (optTtl opts) 3600000,
           cleanupInterval = orDefault (optCleanupInterval opts) 300000,
           cleanupTimer = Some t\<rparr>, rt'))"

definition expired :: "int \<Rightarrow> entry \<Rightarrow> bool" where
  \<comment> \<open>\<open>now > entry.expiresAt\<close>, the test of \<open>get\<close>, \<open>getAll\<close> and \<open>cleanup\<close>\<close>
  "expired now e = (now > expiresAt e)"

definition oldestId :: "(jsval \<times> entry) list \<Rightarrow> jsval" where
  \<comment> \<open>\<open>this.elements.keys().next().value\<close>: \<open>undefined\<close> on an empty map\<close>
  "oldestId els = (case els of [] \<Rightarrow> JUndefined | (k, _) # _ \<Rightarrow> k)"

definition add :: "int \<Rightarrow> heap \<Rightarrow> jsval \<Rightarrow> storage \<Rightarrow> (error + bool) \<times> heap \<times> storage" where
  "add now h element st =
     (if \<not> validateCapturedElement h element then (Inr False, h, st)
      else (case element of
              JRef a \<Rightarrow>
                (case sanitizeElement h a of
                   (Inl e, h') \<Rightarrow> (Inl e, h', st)
                 | (Inr sanitized, h') \<Rightarrow>
                     (let els = (if int (length (elements st)) \<ge> maxElements st
                                 then AList.delete (oldestId (elements st)) (elements st)
                                 else elements st);
                          ent = \<lparr>data = sanitized, expiresAt = now + ttl st\<rparr>
                      in (Inr True, h',
                          st\<lparr>elements :=
                               AList.update (getProp (hget h' sanitized) ''id'') ent els\<rparr>)))
            | _ \<Rightarrow> (Inr False, h, st)))"

definition get :: "int \<Rightarrow> jsval \<Rightarrow> storage \<Rightarrow> nat option \<times> storage" where
  \<comment> \<open>\<open>None\<close> is the result \<open>null\<close>\<close>
  "get now eid st =
     (case map_of (elements st) eid of
        None \<Rightarrow> (None, st)
      | Some ent \<Rightarrow>
          if expired now ent
          then (None, st\<lparr>elements := AList.delete eid (elements st)\<rparr>)
          else (Some (data ent), st))"

definition timestampOf :: "heap \<Rightarrow> nat \<Rightarrow> int" where
  "timestampOf h a = (case getProp (hget h a) ''timestamp'' of JNum n \<Rightarrow> n | _ \<Rightarrow> 0)"

definition hasNumericTimestamp :: "heap \<Rightarrow> nat \<Rightarrow> bool" where
  "hasNumericTimestamp h a = (case getProp (hget h a) ''timestamp'' of JNum n \<Rightarrow> True | _ \<Rightarrow> False)"

definition getAll :: "int \<Rightarrow> heap \<Rightarrow> storage \<Rightarrow> (error + nat list) \<times> storage" where
  \<comment> \<open>The loop deletes the expired entries and collects the others in map order.
      \<open>Array.prototype.sort\<close> is stable, and the comparator \<open>b.timestamp - a.timestamp\<close>
      orders by descending timestamp: a stable sort on the negated timestamp. Every record
      that \<open>add\<close> stores has a numeric timestamp; the subtraction on other values is
      left out of the model.\<close>
  "getAll now h st =
     (let valid = filter (\<lambda>(eid, ent). \<not> expired now ent) (elements st);
          validElements = map (\<lambda>(eid, ent). data ent) valid;
          st' = st\<lparr>elements := valid\<rparr>
      in if list_all (hasNumericTimestamp h) validElements
         then (Inr (sort_key (\<lambda>a. - timestampOf h a) validElements), st')
         else (Inl Unmodelled, st'))"

definition remove :: "jsval \<Rightarrow> storage \<Rightarrow> bool \<times> storage" where
  "remove eid st =
     (map_of (elements st) eid \<noteq> None, st\<lparr>elements := AList.delete eid (elements st)\<rparr>)"

definition clear :: "storage \<Rightarrow> storage" where
  "clear st = st\<lparr>elements := []\<rparr>"

definition lowerIncludes :: "jsval \<Rightarrow> string \<Rightarrow> error + bool" where
  \<comment> \<open>\<open>v.toLowerCase().includes(lowerQuery)\<close>: only a string has \<open>toLowerCase\<close>\<close>
  "lowerIncludes v lowerQuery =
     (case v of JStr s \<Rightarrow> Inr (strIncludes (toLowerCase s) lowerQuery) | _ \<Rightarrow> Inl TypeError)"

fun orElse :: "(error + bool) \<Rightarrow> (error + bool) \<Rightarrow> error + bool" where
  \<comment> \<open>\<open>a || b\<close>: \<open>b\<close> is evaluated only when \<open>a\<close> is false\<close>
  "orElse (Inl e) b = Inl e"
| "orElse (Inr True) b = Inr True"
| "orElse (Inr False) b = b"

definition matchesQuery :: "heap \<Rightarrow> string \<Rightarrow> nat \<Rightarrow> error + bool" where
  "matchesQuery h lowerQuery a =
     (let element = hget h a
      in orElse (lowerIncludes (getProp element ''selector'') lowerQuery)
        (orElse (lowerIncludes (getProp element ''text'') lowerQuery)
        (orElse (lowerIncludes (getProp element ''html'') lowerQuery)
                (lowerIncludes (getProp element ''url'') lowerQuery))))"

fun filterE :: "('a \<Rightarrow> error + bool) \<Rightarrow> 'a list \<Rightarrow> error + 'a list" where
  \<comment> \<open>\<open>Array.prototype.filter\<close> with a callback that may throw\<close>
  "filterE p [] = Inr []"
| "filterE p (x # xs) =
     (case p x of
        Inl e \<Rightarrow> Inl e
      | Inr b \<Rightarrow>
          (case filterE p xs of
             Inl e \<Rightarrow> Inl e
           | Inr ys \<Rightarrow> Inr (if b then x # ys else ys)))"

definition search :: "string \<Rightarrow> int \<Rightarrow> heap \<Rightarrow> storage \<Rightarrow> (error + nat list) \<times> storage" where
  "search query now h st =
     (let lowerQuery = toLowerCase query
      in case getAll now h st of
           (Inl e, st') \<Rightarrow> (Inl e, st')
         | (Inr allElements, st') \<Rightarrow> (filterE (matchesQuery h lowerQuery) allElements, st'))"

definition cleanup :: "int \<Rightarrow> storage \<Rightarrow> storage" where
  "cleanup now st = st\<lparr>elements := filter (\<lambda>(eid, ent). \<not> expired now ent) (elements st)\<rparr>"

definition destroy :: "storage \<times> runtime \<Rightarrow> storage \<times> runtime" where
  "destroy = (\<lambda>(st, rt).
     (case cleanupTimer st of
        Some t \<Rightarrow> (clear (st\<lparr>cleanupTimer := None\<rparr>), clearInterval t rt)
      | None \<Rightarrow> (clear st, rt)))"

section \<open>Sequences of calls and the live count\<close>

fun admitAll :: "(int \<times> jsobj list \<times> jsval) list \<Rightarrow> heap \<times> storage \<Rightarrow> heap \<times> storage" where
  \<comment> \<open>A sequence of \<open>add\<close> calls. For each call the caller first allocates the objects of
      the parsed message, then calls \<open>add\<close> at time \<open>now\<close>; an exception is caught by the
      message handler, and the next call sees the state that the failed call left.\<close>
  "admitAll [] (h, st) = (h, st)"
| "admitAll ((now, objs, element) # calls) (h, st) =
     (case add now (h @ objs) element st of (r, h', st') \<Rightarrow> admitAll calls (h', st'))"

definition liveCount :: "int \<Rightarrow> storage \<Rightarrow> nat" where
  \<comment> \<open>the number of entries that a read at time \<open>now\<close> would not treat as expired\<close>
  "liveCount now st = length (filter (\<lambda>(eid, ent). \<not> expired now ent) (elements st))"

definition storedRecordsTimed :: "heap \<Rightarrow> storage \<Rightarrow> bool" where
  \<comment> \<open>every entry refers to an object of the heap whose timestamp is a number, as every
      record stored by \<open>add\<close> is\<close>
  "storedRecordsTimed h st =
     list_all (\<lambda>(eid, ent). data ent < length h \<and> hasNumericTimestamp h (data ent)) (elements st)"

definition hasStringFields :: "heap \<Rightarrow> nat \<Rightarrow> bool" where
  \<comment> \<open>the four fields that \<open>search\<close> reads are strings, as the type \<open>CapturedElement\<close>
      declares them\<close>
  "hasStringFields h a =
     list_all (\<lambda>f. case getProp (hget h a) f of JStr s \<Rightarrow> True | _ \<Rightarrow> False)
       [''selector'', ''text'', ''html'', ''url'']"

section \<open>Example records and stores\<close>

definition mkRecord :: "string \<Rightarrow> int \<Rightarrow> string \<Rightarrow> jsval \<Rightarrow> jsval \<Rightarrow> jsobj" where
  "mkRecord eid ts sel html text =
     [(''id'', JStr eid), (''timestamp'', JNum ts), (''url'', JStr ''http://example.org/''),
      (''selector'', JStr sel), (''html'', html), (''text'', text)]"

definition exRuntime :: runtime where
  "exRuntime = \<lparr>nextTimer = 0, activeTimers = []\<rparr>"

definition exStore :: "int \<Rightarrow> int \<Rightarrow> storage" where
  \<comment> \<open>\<open>new ElementStorage({maxElements: cap, ttl: t})\<close>\<close>
  "exStore cap t =
     fst (newElementStorage
            \<lparr>optMaxElements = Some cap, optTtl = Some t, optCleanupInterval = None\<rparr> exRuntime)"


definition attrHeap :: heap where
  \<comment> \<open>a record whose attributes object carries one sensitive and one harmless key\<close>
  "attrHeap =
     [mkRecord ''a'' 5 ''input#pw'' (JStr ''<input>'') (JStr []) @ [(''attributes'', JRef 1)],
      [(''data-Token'', JStr ''abc''), (''class'', JStr ''c'')]]"

definition scriptHeap :: heap where
  \<comment> \<open>a record whose body is a single, short script element\<close>
  "scriptHeap = [mkRecord ''a'' 5 ''div'' (JStr ''<script></script>'') (JStr ''t'')]"

definition longScriptHeap :: heap where
  \<comment> \<open>a record whose body is a script element followed by 50000 letters\<close>
  "longScriptHeap =
     [mkRecord ''a'' 5 ''div'' (JStr (''<script></script>'' @ replicate 50000 (CHR ''a'')))
        (JStr ''t'')]"

definition plainHeap :: heap where
  \<comment> \<open>a record with a short body and a short excerpt, and a screenshot\<close>
  "plainHeap =
     [mkRecord ''a'' 5 ''div'' (JStr ''<p>x</p>'') (JStr ''x'') @ [(''screenshot'', JStr ''AAAA'')]]"

definition tokenHeap :: heap where
  \<comment> \<open>the caller's record at address 0 and its attributes object at address 1\<close>
  "tokenHeap =
     [mkRecord ''a'' 5 ''input'' (JStr ''<input>'') (JStr ''x'') @ [(''attributes'', JRef 1)],
      [(''token'', JStr ''abc'')]]"

definition tripleHeap :: heap where
  \<comment> \<open>three records with the ids a, b and c\<close>
  "tripleHeap =
     [mkRecord ''a'' 5 ''div'' (JStr ''<p>x</p>'') (JStr ''x''),
      mkRecord ''b'' 6 ''span'' (JStr ''<b>y</b>'') (JStr ''y''),
      mkRecord ''c'' 7 ''p'' (JStr ''<i>z</i>'') (JStr ''z'')]"

definition quadHeap :: heap where
  \<comment> \<open>four records with the ids a, b, c and d\<close>
  "quadHeap =
     [mkRecord ''a'' 5 ''div'' (JStr ''<p>x</p>'') (JStr ''x''),
      mkRecord ''b'' 6 ''span'' (JStr ''<b>y</b>'') (JStr ''y''),
      mkRecord ''c'' 7 ''p'' (JStr ''<i>z</i>'') (JStr ''z''),
      mkRecord ''d'' 8 ''li'' (JStr ''<u>w</u>'') (JStr ''w'')]"

definition tieHeap :: heap where
  \<comment> \<open>two records with the same timestamp\<close>
  "tieHeap =
     [mkRecord ''a'' 5 ''div'' (JStr ''<p>x</p>'') (JStr ''x''),
      mkRecord ''b'' 5 ''span'' (JStr ''<b>y</b>'') (JStr ''y'')]"

definition nullHtmlHeap :: heap where
  \<comment> \<open>a record whose html field is \<open>null\<close>\<close>
  "nullHtmlHeap = [mkRecord ''a'' 5 ''div'' JNull (JStr ''x'')]"


definition nullTextHeap :: heap where
  \<comment> \<open>a record whose text field is \<open>null\<close>\<close>
  "nullTextHeap = [mkRecord ''a'' 5 ''div'' (JStr ''<p>x</p>'') JNull]"

section \<open>Auxiliary lemmas: heap updates and the steps of the sanitizer\<close>

lemma length_setProp: "length (setProp h a k v) = length h"
  by (simp add: setProp_def)

lemma hget_setProp:
  "hget (setProp h a k v) a' =
     (if a' = a \<and> a < length h then AList.update k v (hget h a) else hget h a')"
  by (simp add: setProp_def hget_def)

lemma getProp_update:
  "getProp (AList.update k v obj) k' = (if k' = k then v else getProp obj k')"
  by (simp add: getProp_def update_conv')

lemma map_of_redact_fold:
  "map_of (fold (\<lambda>attr o'. if isSensitive attr then AList.update attr REDACTED o' else o') ks obj) k =
     (if k \<in> set ks \<and> isSensitive k then Some REDACTED else map_of obj k)"
  by (induction ks arbitrary: obj) (auto simp: update_conv')

lemma keys_update_present:
  "k \<in> fst ` set obj \<Longrightarrow> map fst (AList.update k v obj) = map fst obj"
  by (simp add: update_keys)

lemma keys_redact_fold:
  "set ks \<subseteq> fst ` set obj \<Longrightarrow>
   map fst (fold (\<lambda>attr o'. if isSensitive attr then AList.update attr REDACTED o' else o') ks obj) = map fst obj"
proof (induction ks arbitrary: obj)
  case Nil
  then show ?case by simp
next
  case (Cons attr ks)
  then have present: "attr \<in> fst ` set obj" and rest: "set ks \<subseteq> fst ` set obj"
    by simp_all
  show ?case
  proof (cases "isSensitive attr")
    case True
    have keys: "map fst (AList.update attr REDACTED obj) = map fst obj"
      using present by (rule keys_update_present)
    then have "fst ` set (AList.update attr REDACTED obj) = fst ` set obj"
      by (metis list.set_map)
    with rest Cons.IH [of "AList.update attr REDACTED obj"] keys True
    show ?thesis by simp
  next
    case False
    with rest Cons.IH [of obj] show ?thesis by simp
  qed
qed

lemma map_of_redactObject:
  "map_of (redactObject obj) k =
     (case map_of obj k of None \<Rightarrow> None | Some v \<Rightarrow> Some (if isSensitive k then REDACTED else v))"
proof (cases "map_of obj k")
  case None
  then have "k \<notin> fst ` set obj"
    by (simp add: map_of_eq_None_iff)
  with None show ?thesis by (simp add: redactObject_def map_of_redact_fold)
next
  case (Some v)
  then have "k \<in> fst ` set obj"
    by (metis map_of_eq_None_iff option.distinct(1))
  with Some show ?thesis by (simp add: redactObject_def map_of_redact_fold)
qed

lemma keys_redactObject: "map fst (redactObject obj) = map fst obj"
  by (simp add: redactObject_def keys_redact_fold)

lemma getProp_redactObject:
  "getProp (redactObject obj) k =
     (if isSensitive k \<and> hasProp obj k then REDACTED else getProp obj k)"
  by (auto simp: getProp_def hasProp_def map_of_redactObject split: option.splits)

lemma removeScripts_Nil: "removeScripts [] = []" by simp

lemma scrubHtml_length: "scrubHtml h s = Inr h1 \<Longrightarrow> length h1 = length h"
  by (auto simp: scrubHtml_def Let_def length_setProp split: if_splits jsval.splits)

lemma scrubHtml_frame: "scrubHtml h s = Inr h1 \<Longrightarrow> a' \<noteq> s \<Longrightarrow> hget h1 a' = hget h a'"
  by (auto simp: scrubHtml_def Let_def hget_setProp split: if_splits jsval.splits)

lemma scrubHtml_field:
  "scrubHtml h s = Inr h1 \<Longrightarrow> s < length h \<Longrightarrow>
   getProp (hget h1 s) k =
     (if k = ''html''
      then (case getProp (hget h s) ''html'' of
              JStr x \<Rightarrow> JStr (removeHandlers (removeScripts x))
            | v \<Rightarrow> v)
      else getProp (hget h s) k)"
  by (auto simp: scrubHtml_def Let_def hget_setProp getProp_update split: if_splits jsval.splits)

lemma redactAttributes_length: "length (redactAttributes h s) = length h"
  by (auto simp: redactAttributes_def Let_def split: jsval.splits)

lemma hget_redactAttributes:
  "hget (redactAttributes h s) a' =
     (if getProp (hget h s) ''attributes'' = JRef a' then redactObject (hget h a') else hget h a')"
  by (auto simp: redactAttributes_def Let_def hget_def redactObject_def split: jsval.splits)

lemma redactAttributes_field:
  "\<not> isSensitive k \<Longrightarrow> getProp (hget (redactAttributes h s) a') k = getProp (hget h a') k"
  by (simp add: hget_redactAttributes getProp_redactObject)

lemma truncateField_length: "truncateField h s f lim = Inr h3 \<Longrightarrow> length h3 = length h"
  by (auto simp: truncateField_def Let_def length_setProp split: sum.splits bool.splits jsval.splits)

lemma truncateField_frame:
  "truncateField h s f lim = Inr h3 \<Longrightarrow> a' \<noteq> s \<Longrightarrow> hget h3 a' = hget h a'"
  by (auto simp: truncateField_def Let_def hget_setProp split: sum.splits bool.splits jsval.splits)

lemma truncateField_field:
  "truncateField h s f lim = Inr h3 \<Longrightarrow> s < length h \<Longrightarrow>
   getProp (hget h3 s) k =
     (if k = f
      then (case getProp (hget h s) f of
              JStr x \<Rightarrow> JStr (if length x > lim then take lim x @ TRUNCATED else x)
            | v \<Rightarrow> v)
      else getProp (hget h s) k)"
  by (auto simp: truncateField_def Let_def hget_setProp getProp_update exceeds_def substring0_def
           split: sum.splits bool.splits jsval.splits if_splits)

lemma dropScreenshot_length: "dropScreenshot h s = Inr h5 \<Longrightarrow> length h5 = length h"
  by (auto simp: dropScreenshot_def length_setProp split: sum.splits bool.splits)

lemma dropScreenshot_frame:
  "dropScreenshot h s = Inr h5 \<Longrightarrow> a' \<noteq> s \<Longrightarrow> hget h5 a' = hget h a'"
  by (auto simp: dropScreenshot_def hget_setProp length_setProp split: sum.splits bool.splits)

lemma dropScreenshot_other:
  "dropScreenshot h s = Inr h5 \<Longrightarrow> k \<noteq> ''screenshot'' \<Longrightarrow> k \<noteq> ''_screenshotTruncated'' \<Longrightarrow>
   getProp (hget h5 s) k = getProp (hget h s) k"
  by (auto simp: dropScreenshot_def hget_setProp length_setProp getProp_update split: sum.splits bool.splits)

lemma dropScreenshot_string:
  "dropScreenshot h s = Inr h5 \<Longrightarrow> s < length h \<Longrightarrow> getProp (hget h s) ''screenshot'' = JStr p \<Longrightarrow>
   (if length p > MAX_SCREENSHOT_SIZE
    then getProp (hget h5 s) ''screenshot'' = JStr [] \<and> getProp (hget h5 s) ''_screenshotTruncated'' = JBool True
    else hget h5 s = hget h s)"
  by (auto simp: dropScreenshot_def hget_setProp length_setProp getProp_update exceeds_def
           split: sum.splits bool.splits if_splits)

lemma sanitizeElement_steps:
  assumes "sanitizeElement h a = (Inr s, h')"
  obtains h1 h3 h4 where
    "s = length h"
    "scrubHtml (h @ [hget h a]) s = Inr h1"
    "truncateField (redactAttributes h1 s) s ''html'' MAX_HTML_SIZE = Inr h3"
    "truncateField h3 s ''text'' MAX_TEXT_SIZE = Inr h4"
    "dropScreenshot h4 s = Inr h'"
  using assms
  by (auto simp: sanitizeElement_def Let_def split: sum.splits)

lemma hget_append:
  "hget (h @ [obj]) a' = (if a' < length h then hget h a' else if a' = length h then obj else [])"
  by (auto simp: hget_def nth_append)

lemma startsWith_iff: "startsWith s p \<longleftrightarrow> (\<exists>post. s = p @ post)"
proof
  assume "startsWith s p"
  then have "s = p @ drop (length p) s"
    by (metis append_take_drop_id startsWith_def)
  then show "\<exists>post. s = p @ post" ..
next
  assume "\<exists>post. s = p @ post"
  then show "startsWith s p" by (auto simp: startsWith_def)
qed

lemma strIncludes_iff: "strIncludes s sub \<longleftrightarrow> (\<exists>pre post. s = pre @ sub @ post)"
proof (induction s)
  case Nil
  then show ?case by simp
next
  case (Cons c cs)
  show ?case
  proof
    assume "strIncludes (c # cs) sub"
    then consider "startsWith (c # cs) sub" | "strIncludes cs sub" by auto
    then show "\<exists>pre post. c # cs = pre @ sub @ post"
    proof cases
      case 1
      then obtain post where "c # cs = sub @ post" by (auto simp: startsWith_iff)
      then have "c # cs = [] @ sub @ post" by simp
      then show ?thesis by blast
    next
      case 2
      with Cons.IH obtain pre post where "cs = pre @ sub @ post" by auto
      then have "c # cs = (c # pre) @ sub @ post" by simp
      then show ?thesis by blast
    qed
  next
    assume "\<exists>pre post. c # cs = pre @ sub @ post"
    then obtain pre post where eq: "c # cs = pre @ sub @ post" by auto
    show "strIncludes (c # cs) sub"
    proof (cases pre)
      case Nil
      with eq have "startsWith (c # cs) sub" by (auto simp: startsWith_iff)
      then show ?thesis by simp
    next
      case (Cons p pre')
      with eq have "cs = pre' @ sub @ post" by simp
      with Cons.IH have "strIncludes cs sub" by auto
      then show ?thesis by simp
    qed
  qed
qed

lemma isSensitive_iff:
  "isSensitive k \<longleftrightarrow>
     (\<exists>s \<in> set [''password'', ''token'', ''secret'', ''key'', ''auth''].
        \<exists>pre post. toLowerCase k = pre @ s @ post)"
  by (simp add: isSensitive_def sensitiveAttrs_def strIncludes_iff list_ex_iff del: strIncludes.simps)

lemma add_success:
  assumes "add now h v st = (Inr True, h', st')"
  obtains a where
    "v = JRef a"
    "validateCapturedElement h v"
    "sanitizeElement h a = (Inr (length h), h')"
    "st' = st\<lparr>elements :=
             AList.update (getProp (hget h' (length h)) ''id'')
               \<lparr>data = length h, expiresAt = now + ttl st\<rparr>
               (if int (length (elements st)) \<ge> maxElements st
                then AList.delete (oldestId (elements st)) (elements st)
                else elements st)\<rparr>"
proof -
  from assms have valid: "validateCapturedElement h v"
    by (auto simp: add_def split: if_splits)
  then obtain a where v: "v = JRef a"
    by (cases v) (auto simp: validateCapturedElement_def)
  from assms valid v obtain s where san: "sanitizeElement h a = (Inr s, h')"
    by (auto simp: add_def Let_def split: prod.splits sum.splits)
  then have s: "s = length h"
    by (rule sanitizeElement_steps)
  from assms valid v san s have
    "st' = st\<lparr>elements :=
             AList.update (getProp (hget h' (length h)) ''id'')
               \<lparr>data = length h, expiresAt = now + ttl st\<rparr>
               (if int (length (elements st)) \<ge> maxElements st
                then AList.delete (oldestId (elements st)) (elements st)
                else elements st)\<rparr>"
    by (auto simp: add_def Let_def)
  with v valid san s show ?thesis using that by blast
qed

lemma not_sensitive_fields:
  "\<not> isSensitive ''attributes''" "\<not> isSensitive ''html''" "\<not> isSensitive ''text''"
  "\<not> isSensitive ''screenshot''" "\<not> isSensitive ''id''" "\<not> isSensitive ''timestamp''"
  "\<not> isSensitive ''selector''" "\<not> isSensitive ''url''" "\<not> isSensitive ''_screenshotTruncated''"
  by code_simp+

lemma sanitizeElement_attributes_object:
  assumes san: "sanitizeElement h a = (Inr s, h')"
    and attrs: "getProp (hget h a) ''attributes'' = JRef b"
    and b: "b < length h"
  shows "hget h' b = redactObject (hget h b)"
proof -
  from san obtain h1 h3 h4 where
    s: "s = length h"
    and 1: "scrubHtml (h @ [hget h a]) s = Inr h1"
    and 3: "truncateField (redactAttributes h1 s) s ''html'' MAX_HTML_SIZE = Inr h3"
    and 4: "truncateField h3 s ''text'' MAX_TEXT_SIZE = Inr h4"
    and 5: "dropScreenshot h4 s = Inr h'"
    by (rule sanitizeElement_steps)
  from b s have ne: "b \<noteq> s" by simp
  have "getProp (hget h1 s) ''attributes'' = JRef b"
    using scrubHtml_field [OF 1, of "''attributes''"] s attrs by (simp add: hget_append)
  moreover have "hget h1 b = hget h b"
    using scrubHtml_frame [OF 1 ne] b by (simp add: hget_append)
  ultimately have "hget (redactAttributes h1 s) b = redactObject (hget h b)"
    by (simp add: hget_redactAttributes)
  then show ?thesis
    using truncateField_frame [OF 3 ne] truncateField_frame [OF 4 ne] dropScreenshot_frame [OF 5 ne]
    by simp
qed

lemma sanitizeElement_kept_field:
  assumes san: "sanitizeElement h a = (Inr s, h')"
    and k: "k \<noteq> ''html''" "k \<noteq> ''text''" "k \<noteq> ''screenshot''" "k \<noteq> ''_screenshotTruncated''"
      "\<not> isSensitive k"
  shows "getProp (hget h' s) k = getProp (hget h a) k"
proof -
  from san obtain h1 h3 h4 where
    s: "s = length h"
    and 1: "scrubHtml (h @ [hget h a]) s = Inr h1"
    and 3: "truncateField (redactAttributes h1 s) s ''html'' MAX_HTML_SIZE = Inr h3"
    and 4: "truncateField h3 s ''text'' MAX_TEXT_SIZE = Inr h4"
    and 5: "dropScreenshot h4 s = Inr h'"
    by (rule sanitizeElement_steps)
  have l1: "s < length h1"
    using scrubHtml_length [OF 1] s by simp
  then have l2: "s < length (redactAttributes h1 s)"
    by (simp add: redactAttributes_length)
  then have l3: "s < length h3"
    using truncateField_length [OF 3] by simp
  have "getProp (hget h1 s) k = getProp (hget h a) k"
    using scrubHtml_field [OF 1, of k] s k by (simp add: hget_append)
  then have "getProp (hget (redactAttributes h1 s) s) k = getProp (hget h a) k"
    using k by (simp add: redactAttributes_field)
  then have "getProp (hget h3 s) k = getProp (hget h a) k"
    using truncateField_field [OF 3 l2, of k] k by simp
  then have "getProp (hget h4 s) k = getProp (hget h a) k"
    using truncateField_field [OF 4 l3, of k] k by simp
  then show ?thesis
    using dropScreenshot_other [OF 5, of k] k by simp
qed

lemma map_of_update_same: "map_of (AList.update k v al) k = Some v"
  by (simp add: update_conv')

lemmas eval_defs =
  hget_def getProp_def hasProp_def setProp_def
  lowerChar_def toLowerCase_def startsWith_def substring0_def
  isWordChar_def isSpace_def matchScript_def matchHandler_def
  required_def validateCapturedElement_def sensitiveAttrs_def isSensitive_def
  REDACTED_def TRUNCATED_def MAX_HTML_SIZE_def MAX_TEXT_SIZE_def MAX_SCREENSHOT_SIZE_def
  redactObject_def scrubHtml_def redactAttributes_def exceeds_def truncateField_def
  dropScreenshot_def sanitizeElement_def
  setInterval_def clearInterval_def orDefault_def newElementStorage_def expired_def
  oldestId_def add_def get_def timestampOf_def hasNumericTimestamp_def getAll_def
  remove_def clear_def lowerIncludes_def matchesQuery_def search_def cleanup_def destroy_def
  mkRecord_def exRuntime_def exStore_def Let_def

lemma lowerChar_lt: "lowerChar c = CHR ''<'' \<Longrightarrow> c = CHR ''<''"
proof (rule ccontr)
  assume eq: "lowerChar c = CHR ''<''" and ne: "c \<noteq> CHR ''<''"
  define n where "n = (of_char c :: nat)"
  define up where "up \<longleftrightarrow> (65 \<le> n \<and> n \<le> 90) \<or> (192 \<le> n \<and> n \<le> 222 \<and> n \<noteq> 215)"
  have unfold: "lowerChar c = (if up then char_of (n + 32) else c)"
    unfolding lowerChar_def Let_def n_def up_def ..
  have up
  proof (rule ccontr)
    assume "\<not> up"
    with unfold have "lowerChar c = c" by (simp only: if_False)
    with eq ne show False by (simp only:)
  qed
  with unfold have "lowerChar c = char_of (n + 32)"
    by (simp only: if_True)
  with eq have "char_of (n + 32) = CHR ''<''"
    by (simp only:)
  then have "(of_char (char_of (n + 32) :: char) :: nat) = of_char (CHR ''<'')"
    by (rule arg_cong)
  moreover have "(of_char (char_of (n + 32) :: char) :: nat) = (n + 32) mod 256"
    by (rule of_char_of)
  moreover have "(of_char (CHR ''<'') :: nat) = 60"
    by code_simp
  ultimately have "(n + 32) mod 256 = 60"
    by (simp only:)
  moreover from \<open>up\<close> have small: "n + 32 < 256" and big: "65 \<le> n"
    unfolding up_def by linarith+
  ultimately have "n + 32 = 60"
    by (simp only: mod_less)
  with big show False by linarith
qed

lemma matchScript_no_lt: "c \<noteq> CHR ''<'' \<Longrightarrow> matchScript (c # cs) = None"
  by (auto simp: matchScript_def dest: lowerChar_lt)

lemma removeScripts_no_lt: "CHR ''<'' \<notin> set x \<Longrightarrow> removeScripts x = x"
  by (induction x) (auto simp: matchScript_no_lt)

lemma matchHandler_no_space: "\<not> isSpace c \<Longrightarrow> matchHandler (c # cs) = None"
  by (simp add: matchHandler_def)

lemma removeHandlers_no_space: "\<forall>c \<in> set x. \<not> isSpace c \<Longrightarrow> removeHandlers x = x"
  by (induction x) (auto simp: matchHandler_no_space)

lemma sanitizeElement_html:
  assumes san: "sanitizeElement h a = (Inr s, h')"
    and html: "getProp (hget h a) ''html'' = JStr x"
  shows "getProp (hget h' s) ''html'' =
           JStr (let y = removeHandlers (removeScripts x)
                 in if length y > 50000 then take 50000 y @ ''... [TRUNCATED]'' else y)"
proof -
  from san obtain h1 h3 h4 where
    s: "s = length h"
    and 1: "scrubHtml (h @ [hget h a]) s = Inr h1"
    and 3: "truncateField (redactAttributes h1 s) s ''html'' MAX_HTML_SIZE = Inr h3"
    and 4: "truncateField h3 s ''text'' MAX_TEXT_SIZE = Inr h4"
    and 5: "dropScreenshot h4 s = Inr h'"
    by (rule sanitizeElement_steps)
  have l1: "s < length h1"
    using scrubHtml_length [OF 1] s by simp
  then have l2: "s < length (redactAttributes h1 s)"
    by (simp add: redactAttributes_length)
  then have l3: "s < length h3"
    using truncateField_length [OF 3] by simp
  have "getProp (hget h1 s) ''html'' = JStr (removeHandlers (removeScripts x))"
    using scrubHtml_field [OF 1, of "''html''"] s html by (simp add: hget_append)
  then have "getProp (hget (redactAttributes h1 s) s) ''html'' = JStr (removeHandlers (removeScripts x))"
    using not_sensitive_fields by (simp add: redactAttributes_field)
  then have "getProp (hget h3 s) ''html'' =
           JStr (let y = removeHandlers (removeScripts x)
                 in if length y > 50000 then take 50000 y @ ''... [TRUNCATED]'' else y)"
    using truncateField_field [OF 3 l2, of "''html''"]
    by (simp add: MAX_HTML_SIZE_def TRUNCATED_def Let_def)
  then have "getProp (hget h4 s) ''html'' =
           JStr (let y = removeHandlers (removeScripts x)
                 in if length y > 50000 then take 50000 y @ ''... [TRUNCATED]'' else y)"
    using truncateField_field [OF 4 l3, of "''html''"] by simp
  then show ?thesis
    using dropScreenshot_other [OF 5, of "''html''"] by simp
qed

lemma sanitizeElement_text:
  assumes san: "sanitizeElement h a = (Inr s, h')"
    and excerpt: "getProp (hget h a) ''text'' = JStr t"
  shows "getProp (hget h' s) ''text'' =
           JStr (if length t > 10000 then take 10000 t @ ''... [TRUNCATED]'' else t)"
proof -
  from san obtain h1 h3 h4 where
    s: "s = length h"
    and 1: "scrubHtml (h @ [hget h a]) s = Inr h1"
    and 3: "truncateField (redactAttributes h1 s) s ''html'' MAX_HTML_SIZE = Inr h3"
    and 4: "truncateField h3 s ''text'' MAX_TEXT_SIZE = Inr h4"
    and 5: "dropScreenshot h4 s = Inr h'"
    by (rule sanitizeElement_steps)
  have l1: "s < length h1"
    using scrubHtml_length [OF 1] s by simp
  then have l2: "s < length (redactAttributes h1 s)"
    by (simp add: redactAttributes_length)
  then have l3: "s < length h3"
    using truncateField_length [OF 3] by simp
  have "getProp (hget h1 s) ''text'' = JStr t"
    using scrubHtml_field [OF 1, of "''text''"] s excerpt by (simp add: hget_append)
  then have "getProp (hget (redactAttributes h1 s) s) ''text'' = JStr t"
    using not_sensitive_fields by (simp add: redactAttributes_field)
  then have "getProp (hget h3 s) ''text'' = JStr t"
    using truncateField_field [OF 3 l2, of "''text''"] by simp
  then have "getProp (hget h4 s) ''text'' =
           JStr (if length t > 10000 then take 10000 t @ ''... [TRUNCATED]'' else t)"
    using truncateField_field [OF 4 l3, of "''text''"]
    by (simp add: MAX_TEXT_SIZE_def TRUNCATED_def)
  then show ?thesis
    using dropScreenshot_other [OF 5, of "''text''"] by simp
qed

lemma sanitizeElement_screenshot:
  assumes san: "sanitizeElement h a = (Inr s, h')"
    and shot: "getProp (hget h a) ''screenshot'' = JStr p"
  shows "if length p > 1000000
         then getProp (hget h' s) ''screenshot'' = JStr []
              \<and> getProp (hget h' s) ''_screenshotTruncated'' = JBool True
         else getProp (hget h' s) ''screenshot'' = JStr p
              \<and> getProp (hget h' s) ''_screenshotTruncated''
                    = getProp (hget h a) ''_screenshotTruncated''"
proof -
  from san obtain h1 h3 h4 where
    s: "s = length h"
    and 1: "scrubHtml (h @ [hget h a]) s = Inr h1"
    and 3: "truncateField (redactAttributes h1 s) s ''html'' MAX_HTML_SIZE = Inr h3"
    and 4: "truncateField h3 s ''text'' MAX_TEXT_SIZE = Inr h4"
    and 5: "dropScreenshot h4 s = Inr h'"
    by (rule sanitizeElement_steps)
  have l1: "s < length h1"
    using scrubHtml_length [OF 1] s by simp
  then have l2: "s < length (redactAttributes h1 s)"
    by (simp add: redactAttributes_length)
  then have l3: "s < length h3"
    using truncateField_length [OF 3] by simp
  then have l4: "s < length h4"
    using truncateField_length [OF 4] by simp
  have keep: "getProp (hget h4 s) k = getProp (hget h a) k"
    if "k = ''screenshot'' \<or> k = ''_screenshotTruncated''" for k
  proof -
    have "getProp (hget h1 s) k = getProp (hget h a) k"
      using scrubHtml_field [OF 1, of k] s that by (auto simp: hget_append)
    then have "getProp (hget (redactAttributes h1 s) s) k = getProp (hget h a) k"
      using not_sensitive_fields that by (auto simp: redactAttributes_field)
    then have "getProp (hget h3 s) k = getProp (hget h a) k"
      using truncateField_field [OF 3 l2, of k] that by auto
    then show ?thesis
      using truncateField_field [OF 4 l3, of k] that by auto
  qed
  have shot4: "getProp (hget h4 s) ''screenshot'' = JStr p"
    using keep [of "''screenshot''"] shot by simp
  from dropScreenshot_string [OF 5 l4 shot4] keep [of "''_screenshotTruncated''"] shot4
  show ?thesis
    by (auto simp: MAX_SCREENSHOT_SIZE_def split: if_splits)
qed

lemma length_update_le: "length (AList.update k v al) \<le> Suc (length al)"
  by (induction al) auto

lemma length_delete_oldest: "al \<noteq> [] \<Longrightarrow> length (AList.delete (oldestId al) al) < length al"
proof (cases al)
  case Nil
  then show "al \<noteq> [] \<Longrightarrow> ?thesis" by simp
next
  case (Cons p rest)
  obtain k e where p: "p = (k, e)" by (cases p)
  have "length (AList.delete k rest) \<le> length rest"
    by (rule length_delete_le)
  with Cons p show ?thesis
    by (simp add: oldestId_def)
qed

lemma delete_oldest_distinct:
  "distinct (map fst al) \<Longrightarrow> al = (k0, e0) # rest \<Longrightarrow> AList.delete (oldestId al) al = rest"
  by (auto simp: oldestId_def)

lemma add_cases:
  obtains (rejected) "add now h v st = (Inr False, h, st)"
    | (thrown) e h' where "add now h v st = (Inl e, h', st)"
    | (admitted) h' st' where "add now h v st = (Inr True, h', st')"
proof (cases "validateCapturedElement h v")
  case False
  then have "add now h v st = (Inr False, h, st)" by (simp add: add_def)
  then show ?thesis by (rule rejected)
next
  case True
  then obtain a where v: "v = JRef a"
    by (cases v) (auto simp: validateCapturedElement_def)
  obtain r h' where san: "sanitizeElement h a = (r, h')"
    by (rule prod.exhaust)
  show ?thesis
  proof (cases r)
    case (Inl e)
    with True v san have "add now h v st = (Inl e, h', st)"
      by (simp add: add_def)
    then show ?thesis by (rule thrown)
  next
    case (Inr s)
    with True v san obtain st' where "add now h v st = (Inr True, h', st')"
      by (simp add: add_def Let_def)
    then show ?thesis by (rule admitted)
  qed
qed

lemma add_keeps_capacity:
  assumes pos: "0 < maxElements st"
    and inv: "int (length (elements st)) \<le> maxElements st"
    and call: "add now h v st = (r, h', st')"
  shows "maxElements st' = maxElements st \<and> int (length (elements st')) \<le> maxElements st"
proof (cases rule: add_cases [of now h v st])
  case rejected
  with call inv show ?thesis by simp
next
  case (thrown e h1)
  with call inv show ?thesis by simp
next
  case (admitted h1 st1)
  with call have ok: "add now h v st = (Inr True, h', st')" by simp
  from ok obtain a where
    st': "st' = st\<lparr>elements :=
             AList.update (getProp (hget h' (length h)) ''id'')
               \<lparr>data = length h, expiresAt = now + ttl st\<rparr>
               (if int (length (elements st)) \<ge> maxElements st
                then AList.delete (oldestId (elements st)) (elements st)
                else elements st)\<rparr>"
    by (rule add_success)
  show ?thesis
  proof (cases "int (length (elements st)) \<ge> maxElements st")
    case True
    with pos have "elements st \<noteq> []" by auto
    then have "length (AList.delete (oldestId (elements st)) (elements st)) < length (elements st)"
      by (rule length_delete_oldest)
    moreover have "length (AList.update (getProp (hget h' (length h)) ''id'')
               \<lparr>data = length h, expiresAt = now + ttl st\<rparr>
               (AList.delete (oldestId (elements st)) (elements st)))
            \<le> Suc (length (AList.delete (oldestId (elements st)) (elements st)))"
      by (rule length_update_le)
    ultimately show ?thesis
      using True inv st' by simp
  next
    case False
    moreover have "length (AList.update (getProp (hget h' (length h)) ''id'')
               \<lparr>data = length h, expiresAt = now + ttl st\<rparr> (elements st))
            \<le> Suc (length (elements st))"
      by (rule length_update_le)
    ultimately show ?thesis
      using st' by simp
  qed
qed

lemma admitAll_keeps_capacity:
  "0 < maxElements st \<Longrightarrow> int (length (elements st)) \<le> maxElements st \<Longrightarrow>
   maxElements (snd (admitAll calls (h, st))) = maxElements st
   \<and> int (length (elements (snd (admitAll calls (h, st))))) \<le> maxElements st"
proof (induction calls arbitrary: h st)
  case Nil
  then show ?case by simp
next
  case (Cons call calls)
  obtain now objs element where call: "call = (now, objs, element)"
    by (rule prod_cases3)
  obtain r h' st' where step: "add now (h @ objs) element st = (r, h', st')"
    by (rule prod_cases3)
  from add_keeps_capacity [OF Cons.prems step]
  have cap: "maxElements st' = maxElements st"
    and len: "int (length (elements st')) \<le> maxElements st"
    by simp_all
  from Cons.IH [of st' h'] Cons.prems cap len
  have "maxElements (snd (admitAll calls (h', st'))) = maxElements st'
        \<and> int (length (elements (snd (admitAll calls (h', st'))))) \<le> maxElements st'"
    by simp
  with call step cap show ?case by simp
qed

lemma liveCount_le: "liveCount now st \<le> length (elements st)"
  by (simp add: liveCount_def)

lemma distinct_add:
  assumes "distinct (map fst (elements st))" and "add now h v st = (r, h', st')"
  shows "distinct (map fst (elements st'))"
proof (cases rule: add_cases [of now h v st])
  case rejected
  with assms show ?thesis by simp
next
  case (thrown e h1)
  with assms show ?thesis by simp
next
  case (admitted h1 st1)
  with assms have ok: "add now h v st = (Inr True, h', st')" by simp
  from ok obtain a where
    st': "st' = st\<lparr>elements :=
             AList.update (getProp (hget h' (length h)) ''id'')
               \<lparr>data = length h, expiresAt = now + ttl st\<rparr>
               (if int (length (elements st)) \<ge> maxElements st
                then AList.delete (oldestId (elements st)) (elements st)
                else elements st)\<rparr>"
    by (rule add_success)
  with assms(1) show ?thesis
    by (simp add: distinct_update distinct_delete)
qed

lemma getAll_elements:
  "elements (snd (getAll now h st)) = filter (\<lambda>(eid, ent). now \<le> expiresAt ent) (elements st)"
proof -
  have "(\<lambda>(eid :: jsval, ent). \<not> expired now ent) = (\<lambda>(eid, ent). now \<le> expiresAt ent)"
    by (auto simp: expired_def fun_eq_iff)
  then show ?thesis
    by (simp add: getAll_def Let_def)
qed

lemma getAll_result:
  assumes "getAll now h st = (Inr xs, st')"
  shows "xs = sort_key (\<lambda>a. - timestampOf h a)
                (map (\<lambda>(eid, ent). data ent)
                   (filter (\<lambda>(eid, ent). now \<le> expiresAt ent) (elements st)))"
    and "st' = st\<lparr>elements := filter (\<lambda>(eid, ent). now \<le> expiresAt ent) (elements st)\<rparr>"
proof -
  have live: "(\<lambda>(eid :: jsval, ent). \<not> expired now ent) = (\<lambda>(eid, ent). now \<le> expiresAt ent)"
    by (auto simp: expired_def fun_eq_iff)
  from assms show "xs = sort_key (\<lambda>a. - timestampOf h a)
                (map (\<lambda>(eid, ent). data ent)
                   (filter (\<lambda>(eid, ent). now \<le> expiresAt ent) (elements st)))"
    by (simp add: getAll_def Let_def live split: if_splits)
  from assms show "st' = st\<lparr>elements := filter (\<lambda>(eid, ent). now \<le> expiresAt ent) (elements st)\<rparr>"
    by (simp add: getAll_def Let_def live split: if_splits)
qed

lemma search_elements:
  "elements (snd (search query now h st))
     = filter (\<lambda>(eid, ent). now \<le> expiresAt ent) (elements st)"
proof -
  obtain r st1 where g: "getAll now h st = (r, st1)"
    by (rule prod.exhaust)
  then have "elements st1 = filter (\<lambda>(eid, ent). now \<le> expiresAt ent) (elements st)"
    using getAll_elements [of now h st] by simp
  with g show ?thesis
    by (cases r) (simp_all add: search_def Let_def)
qed

lemma filterE_subset: "filterE p xs = Inr ys \<Longrightarrow> set ys \<subseteq> set xs"
proof (induction xs arbitrary: ys)
  case Nil
  then show ?case by simp
next
  case (Cons x xs)
  then show ?case
    by (auto split: sum.splits if_splits)
qed

lemma filterE_total:
  "\<forall>x \<in> set xs. \<exists>b. p x = Inr b \<Longrightarrow>
   filterE p xs = Inr (filter (\<lambda>x. p x = Inr True) xs)"
proof (induction xs)
  case Nil
  then show ?case by simp
next
  case (Cons x xs)
  then obtain b where "p x = Inr b" by auto
  with Cons show ?case by simp
qed

lemma search_result:
  assumes "search query now h st = (Inr ys, st')"
  obtains xs where "getAll now h st = (Inr xs, st')"
    and "filterE (matchesQuery h (toLowerCase query)) xs = Inr ys"
proof -
  obtain r st1 where g: "getAll now h st = (r, st1)"
    by (rule prod.exhaust)
  with assms obtain xs where r: "r = Inr xs"
    by (cases r) (simp_all add: search_def Let_def)
  with assms g have "st1 = st'" and "filterE (matchesQuery h (toLowerCase query)) xs = Inr ys"
    by (simp_all add: search_def Let_def)
  with g r show ?thesis using that by simp
qed

lemma get_cases:
  "get now eid st =
     (case map_of (elements st) eid of
        None \<Rightarrow> (None, st)
      | Some ent \<Rightarrow>
          if now \<le> expiresAt ent then (Some (data ent), st)
          else (None, st\<lparr>elements := AList.delete eid (elements st)\<rparr>))"
  by (auto simp: get_def expired_def split: option.splits)

lemma getAll_returns:
  assumes "storedRecordsTimed h st"
  shows "\<exists>xs. fst (getAll now h st) = Inr xs"
proof -
  from assms have "list_all (hasNumericTimestamp h)
      (map (\<lambda>(eid, ent). data ent) (filter (\<lambda>(eid, ent). \<not> expired now ent) (elements st)))"
    by (auto simp: storedRecordsTimed_def list_all_iff)
  then show ?thesis
    by (simp add: getAll_def Let_def)
qed

lemma sanitizeElement_timestamp_kept:
  assumes san: "sanitizeElement h a = (Inr s, h')" and old: "b < length h"
  shows "getProp (hget h' b) ''timestamp'' = getProp (hget h b) ''timestamp''"
proof -
  from san obtain h1 h3 h4 where
    s: "s = length h"
    and 1: "scrubHtml (h @ [hget h a]) s = Inr h1"
    and 3: "truncateField (redactAttributes h1 s) s ''html'' MAX_HTML_SIZE = Inr h3"
    and 4: "truncateField h3 s ''text'' MAX_TEXT_SIZE = Inr h4"
    and 5: "dropScreenshot h4 s = Inr h'"
    by (rule sanitizeElement_steps)
  from old s have ne: "b \<noteq> s" by simp
  have "hget h1 b = hget h b"
    using scrubHtml_frame [OF 1 ne] old by (simp add: hget_append)
  then have "getProp (hget (redactAttributes h1 s) b) ''timestamp'' = getProp (hget h b) ''timestamp''"
    using not_sensitive_fields by (simp add: redactAttributes_field)
  then show ?thesis
    using truncateField_frame [OF 3 ne] truncateField_frame [OF 4 ne] dropScreenshot_frame [OF 5 ne]
    by simp
qed

lemma sanitizeElement_length:
  assumes san: "sanitizeElement h a = (Inr s, h')"
  shows "length h' = Suc (length h)"
proof -
  from san obtain h1 h3 h4 where
    s: "s = length h"
    and 1: "scrubHtml (h @ [hget h a]) s = Inr h1"
    and 3: "truncateField (redactAttributes h1 s) s ''html'' MAX_HTML_SIZE = Inr h3"
    and 4: "truncateField h3 s ''text'' MAX_TEXT_SIZE = Inr h4"
    and 5: "dropScreenshot h4 s = Inr h'"
    by (rule sanitizeElement_steps)
  show ?thesis
    using scrubHtml_length [OF 1] truncateField_length [OF 3] truncateField_length [OF 4]
      dropScreenshot_length [OF 5]
    by (simp add: redactAttributes_length)
qed

lemma validate_timestamp:
  "validateCapturedElement h (JRef a) \<Longrightarrow> \<exists>n. getProp (hget h a) ''timestamp'' = JNum n"
  by (auto simp: validateCapturedElement_def Let_def split: if_splits jsval.splits)

lemma set_delete_subset: "set (AList.delete k al) \<subseteq> set al"
  by (induction al) auto

lemma set_update_subset: "set (AList.update k v al) \<subseteq> insert (k, v) (set al)"
  by (induction al) auto

lemma storedRecordsTimed_append:
  "storedRecordsTimed h st \<Longrightarrow> storedRecordsTimed (h @ objs) st"
  by (auto simp: storedRecordsTimed_def list_all_iff hasNumericTimestamp_def hget_def nth_append)

lemma add_admitted_timed:
  assumes inv: "storedRecordsTimed h st"
    and ok: "add now h v st = (Inr True, h', st')"
  shows "storedRecordsTimed h' st'"
proof -
  from ok obtain a where
    v: "v = JRef a"
    and valid: "validateCapturedElement h v"
    and san: "sanitizeElement h a = (Inr (length h), h')"
    and st': "st' = st\<lparr>elements :=
             AList.update (getProp (hget h' (length h)) ''id'')
               \<lparr>data = length h, expiresAt = now + ttl st\<rparr>
               (if int (length (elements st)) \<ge> maxElements st
                then AList.delete (oldestId (elements st)) (elements st)
                else elements st)\<rparr>"
    by (rule add_success)
  have len: "length h' = Suc (length h)"
    using san by (rule sanitizeElement_length)
  have old: "b < length h' \<and> hasNumericTimestamp h' b"
    if "b < length h" and "hasNumericTimestamp h b" for b
    using sanitizeElement_timestamp_kept [OF san that(1)] that len
    by (simp add: hasNumericTimestamp_def)
  from valid v obtain n where "getProp (hget h a) ''timestamp'' = JNum n"
    using validate_timestamp by blast
  then have "getProp (hget h' (length h)) ''timestamp'' = JNum n"
    using sanitizeElement_kept_field [OF san, of "''timestamp''"] not_sensitive_fields by simp
  then have new: "length h < length h' \<and> hasNumericTimestamp h' (length h)"
    using len by (simp add: hasNumericTimestamp_def)
  have "\<forall>(eid, ent) \<in> set (elements st'). data ent < length h' \<and> hasNumericTimestamp h' (data ent)"
  proof (intro ballI, clarify)
    fix eid ent
    assume mem: "(eid, ent) \<in> set (elements st')"
    define base where "base = (if int (length (elements st)) \<ge> maxElements st
                then AList.delete (oldestId (elements st)) (elements st)
                else elements st)"
    have sub: "set base \<subseteq> set (elements st)"
      using set_delete_subset [of "oldestId (elements st)" "elements st"]
      by (auto simp: base_def)
    from mem st' have "(eid, ent) \<in> set (AList.update (getProp (hget h' (length h)) ''id'')
               \<lparr>data = length h, expiresAt = now + ttl st\<rparr> base)"
      by (simp add: base_def)
    then have "(eid, ent) = (getProp (hget h' (length h)) ''id'', \<lparr>data = length h, expiresAt = now + ttl st\<rparr>)
               \<or> (eid, ent) \<in> set base"
      using set_update_subset by fastforce
    then show "data ent < length h' \<and> hasNumericTimestamp h' (data ent)"
    proof
      assume "(eid, ent) = (getProp (hget h' (length h)) ''id'', \<lparr>data = length h, expiresAt = now + ttl st\<rparr>)"
      then have "data ent = length h" by simp
      with new show ?thesis by simp
    next
      assume "(eid, ent) \<in> set base"
      with sub have "(eid, ent) \<in> set (elements st)" by auto
      with inv have "data ent < length h" and "hasNumericTimestamp h (data ent)"
        by (auto simp: storedRecordsTimed_def list_all_iff)
      then show ?thesis by (rule old)
    qed
  qed
  then show ?thesis
    by (simp add: storedRecordsTimed_def list_all_iff)
qed

lemma sanitizeElement_old_timestamp:
  assumes san: "sanitizeElement h a = (r, h')" and old: "b < length h"
  shows "b < length h' \<and> getProp (hget h' b) ''timestamp'' = getProp (hget h b) ''timestamp''"
proof -
  define s where "s = length h"
  define h0 where "h0 = h @ [hget h a]"
  from old have ne: "b \<noteq> s" by (simp add: s_def)
  have p0: "b < length h0 \<and> getProp (hget h0 b) ''timestamp'' = getProp (hget h b) ''timestamp''"
    using old by (simp add: h0_def hget_append)
  show ?thesis
  proof (cases "scrubHtml h0 s")
    case (Inl e)
    with san have "h' = h0"
      by (simp add: sanitizeElement_def Let_def s_def h0_def)
    with p0 show ?thesis by simp
  next
    case 1: (Inr h1)
    define h2 where "h2 = redactAttributes h1 s"
    have "hget h1 b = hget h0 b" and "length h1 = length h0"
      using scrubHtml_frame [OF 1 ne] scrubHtml_length [OF 1] by simp_all
    with p0 have p2: "b < length h2 \<and> getProp (hget h2 b) ''timestamp'' = getProp (hget h b) ''timestamp''"
      using not_sensitive_fields by (simp add: h2_def redactAttributes_length redactAttributes_field)
    show ?thesis
    proof (cases "truncateField h2 s ''html'' MAX_HTML_SIZE")
      case (Inl e)
      with san 1 have "h' = h2"
        by (simp add: sanitizeElement_def Let_def s_def h0_def h2_def)
      with p2 show ?thesis by simp
    next
      case 3: (Inr h3)
      have p3: "b < length h3 \<and> getProp (hget h3 b) ''timestamp'' = getProp (hget h b) ''timestamp''"
        using truncateField_frame [OF 3 ne] truncateField_length [OF 3] p2 by simp
      show ?thesis
      proof (cases "truncateField h3 s ''text'' MAX_TEXT_SIZE")
        case (Inl e)
        with san 1 3 have "h' = h3"
          by (simp add: sanitizeElement_def Let_def s_def h0_def h2_def)
        with p3 show ?thesis by simp
      next
        case 4: (Inr h4)
        have p4: "b < length h4 \<and> getProp (hget h4 b) ''timestamp'' = getProp (hget h b) ''timestamp''"
          using truncateField_frame [OF 4 ne] truncateField_length [OF 4] p3 by simp
        show ?thesis
        proof (cases "dropScreenshot h4 s")
          case (Inl e)
          with san 1 3 4 have "h' = h4"
            by (simp add: sanitizeElement_def Let_def s_def h0_def h2_def)
          with p4 show ?thesis by simp
        next
          case 5: (Inr h5)
          with san 1 3 4 have "h' = h5"
            by (simp add: sanitizeElement_def Let_def s_def h0_def h2_def)
          then show ?thesis
            using dropScreenshot_frame [OF 5 ne] dropScreenshot_length [OF 5] p4 by simp
        qed
      qed
    qed
  qed
qed

lemma add_thrown:
  assumes "add now h v st = (Inl e, h', st')"
  obtains a where "v = JRef a" and "sanitizeElement h a = (Inl e, h')" and "st' = st"
proof -
  from assms have valid: "validateCapturedElement h v"
    by (auto simp: add_def split: if_splits)
  then obtain a where v: "v = JRef a"
    by (cases v) (auto simp: validateCapturedElement_def)
  obtain r h1 where san: "sanitizeElement h a = (r, h1)"
    by (rule prod.exhaust)
  with assms valid v have "r = Inl e \<and> h1 = h' \<and> st' = st"
    by (cases r) (auto simp: add_def Let_def)
  with v san show ?thesis using that by simp
qed

lemma add_timed:
  assumes inv: "storedRecordsTimed h st"
    and call: "add now h v st = (r, h', st')"
  shows "storedRecordsTimed h' st'"
proof (cases rule: add_cases [of now h v st])
  case rejected
  with call inv show ?thesis by simp
next
  case (thrown e h1)
  with call have "add now h v st = (Inl e, h', st')" by simp
  then obtain a where san: "sanitizeElement h a = (Inl e, h')" and st': "st' = st"
    by (rule add_thrown)
  have "b < length h' \<and> hasNumericTimestamp h' b"
    if "b < length h" and "hasNumericTimestamp h b" for b
    using sanitizeElement_old_timestamp [OF san that(1)] that(2)
    by (simp add: hasNumericTimestamp_def)
  with inv st' show ?thesis
    by (auto simp: storedRecordsTimed_def list_all_iff)
next
  case (admitted h1 st1)
  with call have "add now h v st = (Inr True, h', st')" by simp
  with inv show ?thesis by (rule add_admitted_timed)
qed

lemma admitAll_timed:
  "storedRecordsTimed h st \<Longrightarrow>
   storedRecordsTimed (fst (admitAll calls (h, st))) (snd (admitAll calls (h, st)))"
proof (induction calls arbitrary: h st)
  case Nil
  then show ?case by simp
next
  case (Cons call calls)
  obtain now objs element where call: "call = (now, objs, element)"
    by (rule prod_cases3)
  obtain r h' st' where step: "add now (h @ objs) element st = (r, h', st')"
    by (rule prod_cases3)
  have "storedRecordsTimed (h @ objs) st"
    using Cons.prems by (rule storedRecordsTimed_append)
  then have "storedRecordsTimed h' st'"
    using step by (rule add_timed)
  then have "storedRecordsTimed (fst (admitAll calls (h', st'))) (snd (admitAll calls (h', st')))"
    by (rule Cons.IH)
  with call step show ?case by simp
qed

lemma new_store_timed: "storedRecordsTimed h (fst (newElementStorage opts rt))"
  by (simp add: storedRecordsTimed_def newElementStorage_def setInterval_def)

lemma matchesQuery_strings:
  assumes "hasStringFields h a"
  shows "matchesQuery h q a =
           Inr (\<exists>f \<in> set [''selector'', ''text'', ''html'', ''url''].
                  \<exists>s. getProp (hget h a) f = JStr s \<and> strIncludes (toLowerCase s) q)"
proof -
  from assms obtain s1 s2 s3 s4 where
    f: "getProp (hget h a) ''selector'' = JStr s1" "getProp (hget h a) ''text'' = JStr s2"
       "getProp (hget h a) ''html'' = JStr s3" "getProp (hget h a) ''url'' = JStr s4"
    by (auto simp: hasStringFields_def split: jsval.splits)
  show ?thesis
    by (cases "strIncludes (toLowerCase s1) q"; cases "strIncludes (toLowerCase s2) q";
        cases "strIncludes (toLowerCase s3) q"; cases "strIncludes (toLowerCase s4) q")
       (simp_all add: matchesQuery_def Let_def lowerIncludes_def f)
qed

section \<open>C7: a record that fails validation leaves the store as it was\<close>




section \<open>C8: destroy is idempotent\<close>

text \<open>
  C8. \<open>destroy\<close> has no failing branch, so it raises nothing from any state. Calling it
  twice gives the state that calling it once gives. After it the store is empty and the
  timer field is \<open>null\<close>; the handle that the field held is no longer active in the
  runtime, and when the field was already \<open>null\<close> the runtime's timers are untouched.
\<close>

theorem destroy_idempotent:
  "destroy (destroy (st, rt)) = destroy (st, rt)
   \<and> elements (fst (destroy (st, rt))) = []
   \<and> cleanupTimer (fst (destroy (st, rt))) = None
   \<and> (case cleanupTimer st of
        None \<Rightarrow> activeTimers (snd (destroy (st, rt))) = activeTimers rt
      | Some t \<Rightarrow> t \<notin> set (activeTimers (snd (destroy (st, rt)))))"
  by (cases "cleanupTimer st") (simp_all add: destroy_def clear_def clearInterval_def)

section \<open>C9: sensitive attribute values are redacted\<close>

text \<open>
  C9. When a record is admitted and its \<open>attributes\<close> field refers to an object, the
  stored record refers to that same object, the object keeps its keys, and afterwards
  every key whose lower-case form contains one of \<open>password\<close>, \<open>token\<close>,
  \<open>secret\<close>, \<open>key\<close>, \<open>auth\<close> holds the value \<open>[REDACTED]\<close>, while every other key
  holds the value it had before.
\<close>

theorem sensitive_attributes_redacted:
  assumes admitted: "add now h (JRef a) st = (Inr True, h', st')"
    and attrs: "getProp (hget h a) ''attributes'' = JRef b"
    and b: "b < length h"
  shows "(\<exists>ent. map_of (elements st') (getProp (hget h a) ''id'') = Some ent
               \<and> getProp (hget h' (data ent)) ''attributes'' = JRef b)
         \<and> map fst (hget h' b) = map fst (hget h b)
         \<and> (\<forall>k v. map_of (hget h b) k = Some v \<longrightarrow>
               map_of (hget h' b) k =
                 Some (if (\<exists>s \<in> set [''password'', ''token'', ''secret'', ''key'', ''auth''].
                             \<exists>pre post. toLowerCase k = pre @ s @ post)
                       then JStr ''[REDACTED]'' else v))"
proof -
  from admitted obtain a' where
    "JRef a = JRef a'"
    and san': "sanitizeElement h a' = (Inr (length h), h')"
    and st': "st' = st\<lparr>elements :=
             AList.update (getProp (hget h' (length h)) ''id'')
               \<lparr>data = length h, expiresAt = now + ttl st\<rparr>
               (if int (length (elements st)) \<ge> maxElements st
                then AList.delete (oldestId (elements st)) (elements st)
                else elements st)\<rparr>"
    by (rule add_success)
  then have san: "sanitizeElement h a = (Inr (length h), h')" by simp
  have id: "getProp (hget h' (length h)) ''id'' = getProp (hget h a) ''id''"
    using sanitizeElement_kept_field [OF san, of "''id''"] not_sensitive_fields by simp
  have at: "getProp (hget h' (length h)) ''attributes'' = JRef b"
    using sanitizeElement_kept_field [OF san, of "''attributes''"] not_sensitive_fields attrs by simp
  have obj: "hget h' b = redactObject (hget h b)"
    using san attrs b by (rule sanitizeElement_attributes_object)
  have stored: "map_of (elements st') (getProp (hget h a) ''id'')
                  = Some \<lparr>data = length h, expiresAt = now + ttl st\<rparr>"
    unfolding st' id by (simp add: map_of_update_same)
  have 1: "\<exists>ent. map_of (elements st') (getProp (hget h a) ''id'') = Some ent
               \<and> getProp (hget h' (data ent)) ''attributes'' = JRef b"
    using stored at by simp
  have 2: "map fst (hget h' b) = map fst (hget h b)"
    unfolding obj by (rule keys_redactObject)
  have 3: "\<forall>k v. map_of (hget h b) k = Some v \<longrightarrow>
               map_of (hget h' b) k =
                 Some (if (\<exists>s \<in> set [''password'', ''token'', ''secret'', ''key'', ''auth''].
                             \<exists>pre post. toLowerCase k = pre @ s @ post)
                       then JStr ''[REDACTED]'' else v)"
    unfolding obj isSensitive_iff [symmetric]
    by (simp add: map_of_redactObject REDACTED_def)
  from 1 2 3 show ?thesis by blast
qed

theorem sensitive_attributes_redacted_witness:
  "\<exists>h' st'. add 0 attrHeap (JRef 0) (exStore 50 1000) = (Inr True, h', st')
     \<and> getProp (hget attrHeap 0) ''attributes'' = JRef 1
     \<and> (1::nat) < length attrHeap
     \<and> map_of (hget attrHeap 1) ''data-Token'' = Some (JStr ''abc'')
     \<and> map_of (hget h' 1) ''data-Token'' = Some (JStr ''[REDACTED]'')
     \<and> map_of (hget attrHeap 1) ''class'' = Some (JStr ''c'')
     \<and> map_of (hget h' 1) ''class'' = Some (JStr ''c'')"
proof -
  obtain r h' st' where eq: "add 0 attrHeap (JRef 0) (exStore 50 1000) = (r, h', st')"
    by (rule prod_cases3)
  have "fst (add 0 attrHeap (JRef 0) (exStore 50 1000)) = Inr True"
    by (simp add: eval_defs attrHeap_def)
  with eq have admitted: "add 0 attrHeap (JRef 0) (exStore 50 1000) = (Inr True, h', st')"
    by simp
  have attrs: "getProp (hget attrHeap 0) ''attributes'' = JRef 1"
    by (simp add: eval_defs attrHeap_def)
  have b: "(1::nat) < length attrHeap"
    by (simp add: attrHeap_def)
  have tok: "map_of (hget attrHeap 1) ''data-Token'' = Some (JStr ''abc'')"
    by (simp add: eval_defs attrHeap_def)
  have cls: "map_of (hget attrHeap 1) ''class'' = Some (JStr ''c'')"
    by (simp add: eval_defs attrHeap_def)
  have s1: "isSensitive ''data-Token''" and s2: "\<not> isSensitive ''class''"
    by code_simp+
  note r = sensitive_attributes_redacted [OF admitted attrs b, THEN conjunct2, THEN conjunct2,
      rule_format, folded isSensitive_iff]
  have "map_of (hget h' 1) ''data-Token'' = Some (JStr ''[REDACTED]'')"
    using r [OF tok] s1 by simp
  moreover have "map_of (hget h' 1) ''class'' = Some (JStr ''c'')"
    using r [OF cls] s2 by simp
  ultimately show ?thesis
    using admitted attrs b tok cls by (intro exI conjI)
qed

section \<open>C4: size limits of the stored record\<close>

text \<open>
  C4, as the code has it. The record stored under the id of an admitted record is the
  sanitized copy. Its body is the scrubbed input body (script elements and inline event
  handlers removed), cut to its first 50000 units followed by the truncation marker when
  the scrubbed body is longer than 50000 units, and the scrubbed body itself otherwise.
  The excerpt is cut to its first 10000 units followed by the marker when it is longer,
  and unchanged otherwise. A screenshot longer than 1000000 units is replaced by the empty
  string and the flag \<open>_screenshotTruncated\<close> is set; a shorter one is stored unchanged
  and the flag is left as it was. A body without \<open><\<close> and without white space is not
  changed by the scrubbing.
\<close>

theorem stored_sizes_capped:
  assumes admitted: "add now h (JRef a) st = (Inr True, h', st')"
  shows "map_of (elements st') (getProp (hget h a) ''id'')
           = Some \<lparr>data = length h, expiresAt = now + ttl st\<rparr>
         \<and> (\<forall>x. getProp (hget h a) ''html'' = JStr x \<longrightarrow>
                getProp (hget h' (length h)) ''html'' =
                  JStr (let y = removeHandlers (removeScripts x)
                        in if length y > 50000 then take 50000 y @ ''... [TRUNCATED]'' else y))
         \<and> (\<forall>t. getProp (hget h a) ''text'' = JStr t \<longrightarrow>
                getProp (hget h' (length h)) ''text'' =
                  JStr (if length t > 10000 then take 10000 t @ ''... [TRUNCATED]'' else t))
         \<and> (\<forall>p. getProp (hget h a) ''screenshot'' = JStr p \<longrightarrow>
                (if length p > 1000000
                 then getProp (hget h' (length h)) ''screenshot'' = JStr []
                      \<and> getProp (hget h' (length h)) ''_screenshotTruncated'' = JBool True
                 else getProp (hget h' (length h)) ''screenshot'' = JStr p
                      \<and> getProp (hget h' (length h)) ''_screenshotTruncated''
                            = getProp (hget h a) ''_screenshotTruncated''))
         \<and> (\<forall>x. CHR ''<'' \<notin> set x \<and> (\<forall>c \<in> set x. \<not> isSpace c) \<longrightarrow>
                removeHandlers (removeScripts x) = x)"
proof -
  from admitted obtain a' where
    "JRef a = JRef a'"
    and san': "sanitizeElement h a' = (Inr (length h), h')"
    and st': "st' = st\<lparr>elements :=
             AList.update (getProp (hget h' (length h)) ''id'')
               \<lparr>data = length h, expiresAt = now + ttl st\<rparr>
               (if int (length (elements st)) \<ge> maxElements st
                then AList.delete (oldestId (elements st)) (elements st)
                else elements st)\<rparr>"
    by (rule add_success)
  then have san: "sanitizeElement h a = (Inr (length h), h')" by simp
  have id: "getProp (hget h' (length h)) ''id'' = getProp (hget h a) ''id''"
    using sanitizeElement_kept_field [OF san, of "''id''"] not_sensitive_fields by simp
  have stored: "map_of (elements st') (getProp (hget h a) ''id'')
                  = Some \<lparr>data = length h, expiresAt = now + ttl st\<rparr>"
    unfolding st' id by (simp add: map_of_update_same)
  have body: "\<forall>x. getProp (hget h a) ''html'' = JStr x \<longrightarrow>
                getProp (hget h' (length h)) ''html'' =
                  JStr (let y = removeHandlers (removeScripts x)
                        in if length y > 50000 then take 50000 y @ ''... [TRUNCATED]'' else y)"
    using sanitizeElement_html [OF san] by blast
  have excerpt: "\<forall>t. getProp (hget h a) ''text'' = JStr t \<longrightarrow>
                getProp (hget h' (length h)) ''text'' =
                  JStr (if length t > 10000 then take 10000 t @ ''... [TRUNCATED]'' else t)"
    using sanitizeElement_text [OF san] by blast
  have media: "\<forall>p. getProp (hget h a) ''screenshot'' = JStr p \<longrightarrow>
                (if length p > 1000000
                 then getProp (hget h' (length h)) ''screenshot'' = JStr []
                      \<and> getProp (hget h' (length h)) ''_screenshotTruncated'' = JBool True
                 else getProp (hget h' (length h)) ''screenshot'' = JStr p
                      \<and> getProp (hget h' (length h)) ''_screenshotTruncated''
                            = getProp (hget h a) ''_screenshotTruncated'')"
    using sanitizeElement_screenshot [OF san] by blast
  have plain: "\<forall>x. CHR ''<'' \<notin> set x \<and> (\<forall>c \<in> set x. \<not> isSpace c) \<longrightarrow>
                removeHandlers (removeScripts x) = x"
    by (simp add: removeScripts_no_lt removeHandlers_no_space)
  from stored body excerpt media plain show ?thesis
    by (intro conjI)
qed

theorem stored_sizes_capped_witness:
  "\<exists>h' st'. add 0 plainHeap (JRef 0) (exStore 50 1000) = (Inr True, h', st')
     \<and> getProp (hget plainHeap 0) ''html'' = JStr ''<p>x</p>''
     \<and> getProp (hget h' (length plainHeap)) ''html'' = JStr ''<p>x</p>''
     \<and> getProp (hget plainHeap 0) ''text'' = JStr ''x''
     \<and> getProp (hget h' (length plainHeap)) ''text'' = JStr ''x''
     \<and> getProp (hget plainHeap 0) ''screenshot'' = JStr ''AAAA''
     \<and> getProp (hget h' (length plainHeap)) ''screenshot'' = JStr ''AAAA''"
proof -
  obtain r h' st' where eq: "add 0 plainHeap (JRef 0) (exStore 50 1000) = (r, h', st')"
    by (rule prod_cases3)
  have "fst (add 0 plainHeap (JRef 0) (exStore 50 1000)) = Inr True"
    by (simp add: eval_defs plainHeap_def)
  with eq have admitted: "add 0 plainHeap (JRef 0) (exStore 50 1000) = (Inr True, h', st')"
    by simp
  have body: "getProp (hget plainHeap 0) ''html'' = JStr ''<p>x</p>''"
    and excerpt: "getProp (hget plainHeap 0) ''text'' = JStr ''x''"
    and media: "getProp (hget plainHeap 0) ''screenshot'' = JStr ''AAAA''"
    by (simp_all add: eval_defs plainHeap_def)
  have scrubbed: "removeHandlers (removeScripts ''<p>x</p>'') = ''<p>x</p>''"
    by (simp add: eval_defs)
  note r = stored_sizes_capped [OF admitted]
  have "getProp (hget h' (length plainHeap)) ''html'' = JStr ''<p>x</p>''"
    using r [THEN conjunct2, THEN conjunct1, rule_format, OF body] scrubbed by simp
  moreover have "getProp (hget h' (length plainHeap)) ''text'' = JStr ''x''"
    using r [THEN conjunct2, THEN conjunct2, THEN conjunct1, rule_format, OF excerpt] by simp
  moreover have "getProp (hget h' (length plainHeap)) ''screenshot'' = JStr ''AAAA''"
    using r [THEN conjunct2, THEN conjunct2, THEN conjunct2, THEN conjunct1, rule_format, OF media]
    by simp
  ultimately show ?thesis
    using admitted body excerpt media by (intro exI conjI)
qed

theorem stored_body_counterexample:
  "fst (add 0 scriptHeap (JRef 0) (exStore 50 1000)) = Inr True
   \<and> elements (snd (snd (add 0 scriptHeap (JRef 0) (exStore 50 1000))))
        = [(JStr ''a'', \<lparr>data = 1, expiresAt = 1000\<rparr>)]
   \<and> getProp (hget scriptHeap 0) ''html'' = JStr ''<script></script>''
   \<and> getProp (hget (fst (snd (add 0 scriptHeap (JRef 0) (exStore 50 1000)))) 1) ''html'' = JStr []
   \<and> fst (add 0 longScriptHeap (JRef 0) (exStore 50 1000)) = Inr True
   \<and> elements (snd (snd (add 0 longScriptHeap (JRef 0) (exStore 50 1000))))
        = [(JStr ''a'', \<lparr>data = 1, expiresAt = 1000\<rparr>)]
   \<and> getProp (hget longScriptHeap 0) ''html''
        = JStr (''<script></script>'' @ replicate 50000 (CHR ''a''))
   \<and> length (''<script></script>'' @ replicate 50000 (CHR ''a'')) = 50017
   \<and> getProp (hget (fst (snd (add 0 longScriptHeap (JRef 0) (exStore 50 1000)))) 1) ''html''
        = JStr (replicate 50000 (CHR ''a''))
   \<and> replicate 50000 (CHR ''a'')
        \<noteq> take 50000 (''<script></script>'' @ replicate 50000 (CHR ''a'')) @ ''... [TRUNCATED]''"
proof -
  have notag: "removeScripts (replicate 50000 (CHR ''a'')) = replicate 50000 (CHR ''a'')"
    by (rule removeScripts_no_lt) simp
  have nospace: "removeHandlers (replicate 50000 (CHR ''a'')) = replicate 50000 (CHR ''a'')"
    by (rule removeHandlers_no_space) (simp add: isSpace_def)
  have "length (replicate 50000 (CHR ''a''))
          \<noteq> length (take 50000 (''<script></script>'' @ replicate 50000 (CHR ''a''))
                     @ ''... [TRUNCATED]'')"
    by simp
  then have differ: "replicate 50000 (CHR ''a'')
        \<noteq> take 50000 (''<script></script>'' @ replicate 50000 (CHR ''a'')) @ ''... [TRUNCATED]''"
    by (rule contrapos_nn) (erule arg_cong)
  have "fst (add 0 scriptHeap (JRef 0) (exStore 50 1000)) = Inr True
   \<and> elements (snd (snd (add 0 scriptHeap (JRef 0) (exStore 50 1000))))
        = [(JStr ''a'', \<lparr>data = 1, expiresAt = 1000\<rparr>)]
   \<and> getProp (hget scriptHeap 0) ''html'' = JStr ''<script></script>''
   \<and> getProp (hget (fst (snd (add 0 scriptHeap (JRef 0) (exStore 50 1000)))) 1) ''html'' = JStr []
   \<and> fst (add 0 longScriptHeap (JRef 0) (exStore 50 1000)) = Inr True
   \<and> elements (snd (snd (add 0 longScriptHeap (JRef 0) (exStore 50 1000))))
        = [(JStr ''a'', \<lparr>data = 1, expiresAt = 1000\<rparr>)]
   \<and> getProp (hget longScriptHeap 0) ''html''
        = JStr (''<script></script>'' @ replicate 50000 (CHR ''a''))
   \<and> length (''<script></script>'' @ replicate 50000 (CHR ''a'')) = 50017
   \<and> getProp (hget (fst (snd (add 0 longScriptHeap (JRef 0) (exStore 50 1000)))) 1) ''html''
        = JStr (replicate 50000 (CHR ''a''))"
    by (simp add: eval_defs scriptHeap_def longScriptHeap_def notag nospace)
  with differ show ?thesis
    by (simp only: simp_thms)
qed

section \<open>C3: what sanitizeElement copies and what it shares\<close>

text \<open>
  C3, as the code has it. \<open>{ ...element }\<close> copies the top level only. A successful
  call returns a new object, allocated behind every object that existed before. No object
  that existed before the call is changed, except possibly the one that the input's
  \<open>attributes\<close> field refers to; in particular the caller's record itself, with its
  \<open>html\<close> and \<open>text\<close> fields, is unchanged. The copy is shallow: its \<open>attributes\<close>
  field is the very reference held by the input, and every field other than \<open>html\<close>,
  \<open>text\<close>, \<open>screenshot\<close> and \<open>_screenshotTruncated\<close> whose name is not on the
  blocklist has the input's value.
\<close>

theorem sanitize_shallow_copy:
  assumes san: "sanitizeElement h element = (Inr s, h')"
    and caller: "element < length h"
  shows "s = length h \<and> length h' = Suc (length h)
         \<and> (\<forall>a < length h. getProp (hget h element) ''attributes'' \<noteq> JRef a \<longrightarrow>
                hget h' a = hget h a)
         \<and> (getProp (hget h element) ''attributes'' \<noteq> JRef element \<longrightarrow>
                hget h' element = hget h element)
         \<and> getProp (hget h' s) ''attributes'' = getProp (hget h element) ''attributes''
         \<and> (\<forall>k. k \<notin> {''html'', ''text'', ''screenshot'', ''_screenshotTruncated''}
                  \<and> \<not> isSensitive k \<longrightarrow>
                getProp (hget h' s) k = getProp (hget h element) k)"
proof -
  from san obtain h1 h3 h4 where
    s: "s = length h"
    and 1: "scrubHtml (h @ [hget h element]) s = Inr h1"
    and 3: "truncateField (redactAttributes h1 s) s ''html'' MAX_HTML_SIZE = Inr h3"
    and 4: "truncateField h3 s ''text'' MAX_TEXT_SIZE = Inr h4"
    and 5: "dropScreenshot h4 s = Inr h'"
    by (rule sanitizeElement_steps)
  have len: "length h' = Suc (length h)"
    using scrubHtml_length [OF 1] truncateField_length [OF 3] truncateField_length [OF 4]
      dropScreenshot_length [OF 5]
    by (simp add: redactAttributes_length)
  have attrs1: "getProp (hget h1 s) ''attributes'' = getProp (hget h element) ''attributes''"
    using scrubHtml_field [OF 1, of "''attributes''"] s by (simp add: hget_append)
  have frame: "hget h' a = hget h a"
    if a: "a < length h" and other: "getProp (hget h element) ''attributes'' \<noteq> JRef a" for a
  proof -
    from a s have ne: "a \<noteq> s" by simp
    have "hget h1 a = hget h a"
      using scrubHtml_frame [OF 1 ne] a by (simp add: hget_append)
    then have "hget (redactAttributes h1 s) a = hget h a"
      using other attrs1 by (simp add: hget_redactAttributes)
    then show ?thesis
      using truncateField_frame [OF 3 ne] truncateField_frame [OF 4 ne]
        dropScreenshot_frame [OF 5 ne]
      by simp
  qed
  have kept: "getProp (hget h' s) k = getProp (hget h element) k"
    if "k \<notin> {''html'', ''text'', ''screenshot'', ''_screenshotTruncated''} \<and> \<not> isSensitive k"
    for k
    using sanitizeElement_kept_field [OF san, of k] that by simp
  have shared: "getProp (hget h' s) ''attributes'' = getProp (hget h element) ''attributes''"
    using sanitizeElement_kept_field [OF san, of "''attributes''"] not_sensitive_fields by simp
  from s len frame caller kept shared show ?thesis
    by simp
qed

theorem sanitize_shallow_copy_witness:
  "\<exists>h'. sanitizeElement tokenHeap 0 = (Inr 2, h')
     \<and> (0::nat) < length tokenHeap
     \<and> length h' = 3
     \<and> getProp (hget tokenHeap 0) ''attributes'' \<noteq> JRef 0
     \<and> hget h' 0 = hget tokenHeap 0
     \<and> getProp (hget h' 2) ''attributes'' = JRef 1
     \<and> getProp (hget h' 2) ''selector'' = JStr ''input''"
proof -
  obtain r h' where eq: "sanitizeElement tokenHeap 0 = (r, h')"
    by (rule prod.exhaust)
  have "fst (sanitizeElement tokenHeap 0) = Inr 2"
    by (simp add: eval_defs tokenHeap_def)
  with eq have san: "sanitizeElement tokenHeap 0 = (Inr 2, h')"
    by simp
  have caller: "(0::nat) < length tokenHeap"
    by (simp add: tokenHeap_def)
  have attrs: "getProp (hget tokenHeap 0) ''attributes'' = JRef 1"
    and sel: "getProp (hget tokenHeap 0) ''selector'' = JStr ''input''"
    and len: "length tokenHeap = 2"
    by (simp_all add: eval_defs tokenHeap_def)
  have plain: "\<not> isSensitive ''selector''"
    by (rule not_sensitive_fields)
  note r = sanitize_shallow_copy [OF san caller]
  have "length h' = 3"
    using r len by simp
  moreover have "getProp (hget tokenHeap 0) ''attributes'' \<noteq> JRef 0"
    using attrs by simp
  moreover have "hget h' 0 = hget tokenHeap 0"
    using r attrs by simp
  moreover have "getProp (hget h' 2) ''attributes'' = JRef 1"
    using r attrs by simp
  moreover have "getProp (hget h' 2) ''selector'' = JStr ''input''"
    using r [THEN conjunct2, THEN conjunct2, THEN conjunct2, THEN conjunct2, THEN conjunct2,
        rule_format, of "''selector''"] plain sel
    by simp
  ultimately show ?thesis
    using san caller by (intro exI conjI)
qed

theorem sanitize_aliasing_counterexample:
  "fst (sanitizeElement tokenHeap 0) = Inr 2
   \<and> getProp (hget tokenHeap 0) ''attributes'' = JRef 1
   \<and> getProp (hget (snd (sanitizeElement tokenHeap 0)) 2) ''attributes'' = JRef 1
   \<and> hget tokenHeap 1 = [(''token'', JStr ''abc'')]
   \<and> hget (snd (sanitizeElement tokenHeap 0)) 1 = [(''token'', JStr ''[REDACTED]'')]"
  by (simp add: eval_defs tokenHeap_def)

section \<open>C2: capacity and eviction\<close>

text \<open>
  C2, as the code has it. \<open>add\<close> compares the capacity with \<open>this.elements.size\<close>,
  the number of entries held in the map, whether or not they have expired. When a valid
  record is admitted to a store with a positive capacity, an eviction happens exactly when
  that number is at least the capacity; it removes one entry, the first in the map's key
  order, and then the new entry is set: an id that is already present keeps its position
  in the order and only its value is replaced, a new id goes to the end. For every
  sequence of \<open>add\<close> calls on a store that holds at most its positive capacity, the
  number of entries held, and with it the number of live entries at any time, never
  exceeds the capacity. A new store is empty, and its capacity is the configured one, 50
  when none (or 0) is configured.
\<close>

theorem capacity_fifo_eviction:
  "(add now h element st = (Inr True, h', st') \<and> distinct (map fst (elements st))
      \<and> 0 < maxElements st \<longrightarrow>
      (if int (length (elements st)) \<ge> maxElements st
       then (\<exists>k0 e0 rest. elements st = (k0, e0) # rest
               \<and> elements st' =
                   AList.update (getProp (hget h' (length h)) ''id'')
                     \<lparr>data = length h, expiresAt = now + ttl st\<rparr> rest)
       else elements st' =
              AList.update (getProp (hget h' (length h)) ''id'')
                \<lparr>data = length h, expiresAt = now + ttl st\<rparr> (elements st)))
   \<and> (0 < maxElements st \<and> int (length (elements st)) \<le> maxElements st \<longrightarrow>
        int (length (elements (snd (admitAll calls (h, st))))) \<le> maxElements st
        \<and> int (liveCount t (snd (admitAll calls (h, st)))) \<le> maxElements st)
   \<and> elements (fst (newElementStorage opts rt)) = []
   \<and> maxElements (fst (newElementStorage opts rt))
        = (case optMaxElements opts of None \<Rightarrow> 50 | Some n \<Rightarrow> if n = 0 then 50 else n)"
proof (intro conjI impI)
  assume a: "add now h element st = (Inr True, h', st') \<and> distinct (map fst (elements st))
      \<and> 0 < maxElements st"
  then have ok: "add now h element st = (Inr True, h', st')"
    and dist: "distinct (map fst (elements st))"
    and pos: "0 < maxElements st"
    by simp_all
  from ok obtain a where
    st': "st' = st\<lparr>elements :=
             AList.update (getProp (hget h' (length h)) ''id'')
               \<lparr>data = length h, expiresAt = now + ttl st\<rparr>
               (if int (length (elements st)) \<ge> maxElements st
                then AList.delete (oldestId (elements st)) (elements st)
                else elements st)\<rparr>"
    by (rule add_success)
  show "if int (length (elements st)) \<ge> maxElements st
       then (\<exists>k0 e0 rest. elements st = (k0, e0) # rest
               \<and> elements st' =
                   AList.update (getProp (hget h' (length h)) ''id'')
                     \<lparr>data = length h, expiresAt = now + ttl st\<rparr> rest)
       else elements st' =
              AList.update (getProp (hget h' (length h)) ''id'')
                \<lparr>data = length h, expiresAt = now + ttl st\<rparr> (elements st)"
  proof (cases "int (length (elements st)) \<ge> maxElements st")
    case True
    with pos obtain k0 e0 rest where els: "elements st = (k0, e0) # rest"
      by (cases "elements st") auto
    have "AList.delete (oldestId (elements st)) (elements st) = rest"
      using dist els by (rule delete_oldest_distinct)
    with True st' els show ?thesis by simp
  next
    case False
    with st' show ?thesis by simp
  qed
next
  assume b: "0 < maxElements st \<and> int (length (elements st)) \<le> maxElements st"
  then have held: "int (length (elements (snd (admitAll calls (h, st))))) \<le> maxElements st"
    using admitAll_keeps_capacity [of st calls h] by simp
  then show "int (length (elements (snd (admitAll calls (h, st))))) \<le> maxElements st" .
  have "liveCount t (snd (admitAll calls (h, st))) \<le> length (elements (snd (admitAll calls (h, st))))"
    by (rule liveCount_le)
  with held show "int (liveCount t (snd (admitAll calls (h, st)))) \<le> maxElements st"
    by linarith
next
  show "elements (fst (newElementStorage opts rt)) = []"
    by (simp add: newElementStorage_def setInterval_def)
next
  show "maxElements (fst (newElementStorage opts rt))
        = (case optMaxElements opts of None \<Rightarrow> 50 | Some n \<Rightarrow> if n = 0 then 50 else n)"
    by (simp add: newElementStorage_def setInterval_def orDefault_def)
qed

theorem capacity_fifo_eviction_witness:
  "\<exists>h1 st1 h2 st2.
     admitAll [(0, [], JRef 0)] (tripleHeap, exStore 1 10) = (h1, st1)
     \<and> elements st1 = [(JStr ''a'', \<lparr>data = 3, expiresAt = 10\<rparr>)]
     \<and> add 5 h1 (JRef 1) st1 = (Inr True, h2, st2)
     \<and> distinct (map fst (elements st1))
     \<and> 0 < maxElements st1
     \<and> int (length (elements st1)) \<ge> maxElements st1
     \<and> elements st2 = [(JStr ''b'', \<lparr>data = 4, expiresAt = 15\<rparr>)]
     \<and> int (length (elements (snd (admitAll [(5, [], JRef 1), (6, [], JRef 2)] (h1, st1))))) \<le> 1"
proof -
  obtain h1 st1 where run: "admitAll [(0, [], JRef 0)] (tripleHeap, exStore 1 10) = (h1, st1)"
    by (rule prod.exhaust)
  have "admitAll [(0, [], JRef 0)] (tripleHeap, exStore 1 10)
          = (tripleHeap @ [hget tripleHeap 0],
             (exStore 1 10)\<lparr>elements := [(JStr ''a'', \<lparr>data = 3, expiresAt = 10\<rparr>)]\<rparr>)"
    by (simp add: eval_defs tripleHeap_def)
  with run have h1: "h1 = tripleHeap @ [hget tripleHeap 0]"
    and st1: "st1 = (exStore 1 10)\<lparr>elements := [(JStr ''a'', \<lparr>data = 3, expiresAt = 10\<rparr>)]\<rparr>"
    by simp_all
  have els1: "elements st1 = [(JStr ''a'', \<lparr>data = 3, expiresAt = 10\<rparr>)]"
    and cap: "maxElements st1 = 1" and life: "ttl st1 = 10"
    by (simp_all add: st1 eval_defs)
  obtain r h2 st2 where eq: "add 5 h1 (JRef 1) st1 = (r, h2, st2)"
    by (rule prod_cases3)
  have "fst (add 5 h1 (JRef 1) st1) = Inr True"
    by (simp add: h1 st1 eval_defs tripleHeap_def)
  with eq have ok: "add 5 h1 (JRef 1) st1 = (Inr True, h2, st2)"
    by simp
  have dist: "distinct (map fst (elements st1))"
    and pos: "0 < maxElements st1"
    and full: "int (length (elements st1)) \<ge> maxElements st1"
    by (simp_all add: els1 cap)
  have "getProp (hget (fst (snd (add 5 h1 (JRef 1) st1))) (length h1)) ''id'' = JStr ''b''"
    by (simp add: h1 st1 eval_defs tripleHeap_def)
  moreover have len1: "length h1 = 4"
    by (simp add: h1 tripleHeap_def)
  ultimately have id2: "getProp (hget h2 4) ''id'' = JStr ''b''"
    using ok by simp
  note r = capacity_fifo_eviction [of 5 h1 "JRef 1" st1 h2 st2
      "[(5, [], JRef 1), (6, [], JRef 2)]" 0 "\<lparr>optMaxElements = None, optTtl = None,
         optCleanupInterval = None\<rparr>" exRuntime]
  from r ok dist pos full have
    "\<exists>k0 e0 rest. elements st1 = (k0, e0) # rest
       \<and> elements st2 =
           AList.update (getProp (hget h2 (length h1)) ''id'')
             \<lparr>data = length h1, expiresAt = 5 + ttl st1\<rparr> rest"
    by simp
  then have els2: "elements st2 = [(JStr ''b'', \<lparr>data = 4, expiresAt = 15\<rparr>)]"
    by (simp add: els1 id2 len1 life)
  from r pos full els1 cap
  have "int (length (elements (snd (admitAll [(5, [], JRef 1), (6, [], JRef 2)] (h1, st1))))) \<le> 1"
    by simp
  with run els1 ok dist pos full els2 show ?thesis
    by (intro exI conjI)
qed

theorem capacity_fifo_eviction_counterexample:
  "elements (snd (admitAll [(0, [], JRef 0)] (tripleHeap, exStore 1 10)))
     = [(JStr ''a'', \<lparr>data = 3, expiresAt = 10\<rparr>)]
   \<and> maxElements (snd (admitAll [(0, [], JRef 0)] (tripleHeap, exStore 1 10))) = 1
   \<and> liveCount 20 (snd (admitAll [(0, [], JRef 0)] (tripleHeap, exStore 1 10))) = 0
   \<and> elements (snd (admitAll [(0, [], JRef 0), (20, [], JRef 1)] (tripleHeap, exStore 1 10)))
     = [(JStr ''b'', \<lparr>data = 4, expiresAt = 30\<rparr>)]
   \<and> elements (snd (admitAll [(0, [], JRef 0), (1, [], JRef 1), (2, [], JRef 0), (3, [], JRef 2)]
                      (quadHeap, exStore 3 1000)))
     = [(JStr ''a'', \<lparr>data = 6, expiresAt = 1002\<rparr>), (JStr ''b'', \<lparr>data = 5, expiresAt = 1001\<rparr>),
        (JStr ''c'', \<lparr>data = 7, expiresAt = 1003\<rparr>)]
   \<and> elements (snd (admitAll [(0, [], JRef 0), (1, [], JRef 1), (2, [], JRef 0), (3, [], JRef 2),
                              (4, [], JRef 3)]
                      (quadHeap, exStore 3 1000)))
     = [(JStr ''b'', \<lparr>data = 5, expiresAt = 1001\<rparr>), (JStr ''c'', \<lparr>data = 7, expiresAt = 1003\<rparr>),
        (JStr ''d'', \<lparr>data = 8, expiresAt = 1004\<rparr>)]"
  by (simp add: eval_defs tripleHeap_def quadHeap_def liveCount_def)

section \<open>C1: reads and expiry\<close>

text \<open>
  C1, as the code has it. Every read tests \<open>now > entry.expiresAt\<close>, so an entry is
  visible exactly while \<open>now \<le> expiresAt\<close>: at the instant \<open>now = expiresAt\<close> it is
  still returned. \<open>get\<close> returns the entry stored under the id iff \<open>now \<le> expiresAt\<close>,
  and otherwise returns \<open>null\<close> and removes it. \<open>getAll\<close> leaves in the store exactly
  the entries with \<open>now \<le> expiresAt\<close>, and it returns exactly their records; it does
  return when every entry has a numeric timestamp, as all entries stored by \<open>add\<close> have.
  \<open>search\<close> purges in the same way, and what it returns are records of entries with
  \<open>now \<le> expiresAt\<close>.
\<close>

theorem reads_hide_expired:
  "(case map_of (elements st) eid of
      None \<Rightarrow> get now eid st = (None, st)
    | Some ent \<Rightarrow>
        if now \<le> expiresAt ent then get now eid st = (Some (data ent), st)
        else fst (get now eid st) = None
             \<and> map_of (elements (snd (get now eid st))) eid = None)
   \<and> elements (snd (getAll now h st))
        = filter (\<lambda>(eid, ent). now \<le> expiresAt ent) (elements st)
   \<and> (storedRecordsTimed h st \<longrightarrow> (\<exists>xs. fst (getAll now h st) = Inr xs))
   \<and> (\<forall>xs. fst (getAll now h st) = Inr xs \<longrightarrow>
          set xs = {data ent | eid ent. (eid, ent) \<in> set (elements st) \<and> now \<le> expiresAt ent})
   \<and> elements (snd (search query now h st))
        = filter (\<lambda>(eid, ent). now \<le> expiresAt ent) (elements st)
   \<and> (\<forall>ys. fst (search query now h st) = Inr ys \<longrightarrow>
          set ys \<subseteq> {data ent | eid ent. (eid, ent) \<in> set (elements st) \<and> now \<le> expiresAt ent})"
proof -
  have one: "case map_of (elements st) eid of
      None \<Rightarrow> get now eid st = (None, st)
    | Some ent \<Rightarrow>
        if now \<le> expiresAt ent then get now eid st = (Some (data ent), st)
        else fst (get now eid st) = None
             \<and> map_of (elements (snd (get now eid st))) eid = None"
    by (simp add: get_cases delete_conv' split: option.splits)
  have all: "set xs = {data ent | eid ent. (eid, ent) \<in> set (elements st) \<and> now \<le> expiresAt ent}"
    if "fst (getAll now h st) = Inr xs" for xs
  proof -
    from that have "getAll now h st = (Inr xs, snd (getAll now h st))"
      by (simp add: prod_eq_iff)
    then have "xs = sort_key (\<lambda>a. - timestampOf h a)
                (map (\<lambda>(eid, ent). data ent)
                   (filter (\<lambda>(eid, ent). now \<le> expiresAt ent) (elements st)))"
      by (rule getAll_result)
    then show ?thesis by force
  qed
  have found: "set ys \<subseteq> {data ent | eid ent. (eid, ent) \<in> set (elements st) \<and> now \<le> expiresAt ent}"
    if "fst (search query now h st) = Inr ys" for ys
  proof -
    from that have "search query now h st = (Inr ys, snd (search query now h st))"
      by (simp add: prod_eq_iff)
    then obtain xs where g: "getAll now h st = (Inr xs, snd (search query now h st))"
      and f: "filterE (matchesQuery h (toLowerCase query)) xs = Inr ys"
      by (rule search_result)
    from g have "fst (getAll now h st) = Inr xs" by simp
    then have "set xs = {data ent | eid ent. (eid, ent) \<in> set (elements st) \<and> now \<le> expiresAt ent}"
      by (rule all)
    with filterE_subset [OF f] show ?thesis by simp
  qed
  from one getAll_elements [of now h st] getAll_returns [of h st now] all
    search_elements [of query now h st] found
  show ?thesis by blast
qed

theorem reads_hide_expired_witness:
  "\<exists>h st. admitAll [(0, [], JRef 0)] (tripleHeap, exStore 50 10) = (h, st)
     \<and> map_of (elements st) (JStr ''a'') = Some \<lparr>data = 3, expiresAt = 10\<rparr>
     \<and> get 9 (JStr ''a'') st = (Some 3, st)
     \<and> fst (get 11 (JStr ''a'') st) = None
     \<and> map_of (elements (snd (get 11 (JStr ''a'') st))) (JStr ''a'') = None
     \<and> storedRecordsTimed h st
     \<and> (\<exists>xs. fst (getAll 9 h st) = Inr xs)
     \<and> elements (snd (getAll 11 h st)) = []"
proof -
  obtain h st where run: "admitAll [(0, [], JRef 0)] (tripleHeap, exStore 50 10) = (h, st)"
    by (rule prod.exhaust)
  have "admitAll [(0, [], JRef 0)] (tripleHeap, exStore 50 10)
          = (tripleHeap @ [hget tripleHeap 0],
             (exStore 50 10)\<lparr>elements := [(JStr ''a'', \<lparr>data = 3, expiresAt = 10\<rparr>)]\<rparr>)"
    by (simp add: eval_defs tripleHeap_def)
  with run have st: "st = (exStore 50 10)\<lparr>elements := [(JStr ''a'', \<lparr>data = 3, expiresAt = 10\<rparr>)]\<rparr>"
    by simp
  then have els: "elements st = [(JStr ''a'', \<lparr>data = 3, expiresAt = 10\<rparr>)]"
    by simp
  then have stored: "map_of (elements st) (JStr ''a'') = Some \<lparr>data = 3, expiresAt = 10\<rparr>"
    by simp
  have "storedRecordsTimed tripleHeap (exStore 50 10)"
    unfolding exStore_def by (rule new_store_timed)
  then have "storedRecordsTimed (fst (admitAll [(0, [], JRef 0)] (tripleHeap, exStore 50 10)))
               (snd (admitAll [(0, [], JRef 0)] (tripleHeap, exStore 50 10)))"
    by (rule admitAll_timed)
  with run have timed: "storedRecordsTimed h st"
    by simp
  have "get 9 (JStr ''a'') st = (Some 3, st)"
    using reads_hide_expired [where st = st and eid = "JStr ''a''" and now = 9 and h = h] stored by simp
  moreover have "fst (get 11 (JStr ''a'') st) = None
      \<and> map_of (elements (snd (get 11 (JStr ''a'') st))) (JStr ''a'') = None"
    using reads_hide_expired [where st = st and eid = "JStr ''a''" and now = 11 and h = h] stored by simp
  moreover have "\<exists>xs. fst (getAll 9 h st) = Inr xs"
    using reads_hide_expired [where st = st and eid = "JStr ''a''" and now = 9 and h = h] timed by blast
  moreover have "elements (snd (getAll 11 h st)) = []"
    using reads_hide_expired [where st = st and eid = "JStr ''a''" and now = 11 and h = h] els by simp
  ultimately have "admitAll [(0, [], JRef 0)] (tripleHeap, exStore 50 10) = (h, st)
     \<and> map_of (elements st) (JStr ''a'') = Some \<lparr>data = 3, expiresAt = 10\<rparr>
     \<and> get 9 (JStr ''a'') st = (Some 3, st)
     \<and> fst (get 11 (JStr ''a'') st) = None
     \<and> map_of (elements (snd (get 11 (JStr ''a'') st))) (JStr ''a'') = None
     \<and> storedRecordsTimed h st
     \<and> (\<exists>xs. fst (getAll 9 h st) = Inr xs)
     \<and> elements (snd (getAll 11 h st)) = []"
    using run stored timed by (simp only: simp_thms)
  then show ?thesis
    by (intro exI)
qed

theorem reads_at_expiry_counterexample:
  "elements (snd (admitAll [(0, [], JRef 0)] (tripleHeap, exStore 50 10)))
     = [(JStr ''a'', \<lparr>data = 3, expiresAt = 10\<rparr>)]
   \<and> fst (get 10 (JStr ''a'') (snd (admitAll [(0, [], JRef 0)] (tripleHeap, exStore 50 10))))
     = Some 3
   \<and> fst (getAll 10 (fst (admitAll [(0, [], JRef 0)] (tripleHeap, exStore 50 10)))
                     (snd (admitAll [(0, [], JRef 0)] (tripleHeap, exStore 50 10))))
     = Inr [3]
   \<and> fst (search ''x'' 10 (fst (admitAll [(0, [], JRef 0)] (tripleHeap, exStore 50 10)))
                          (snd (admitAll [(0, [], JRef 0)] (tripleHeap, exStore 50 10))))
     = Inr [3]"
proof -
  have run: "admitAll [(0, [], JRef 0)] (tripleHeap, exStore 50 10)
          = (tripleHeap @ [hget tripleHeap 0],
             (exStore 50 10)\<lparr>elements := [(JStr ''a'', \<lparr>data = 3, expiresAt = 10\<rparr>)]\<rparr>)"
    by (simp add: eval_defs tripleHeap_def)
  show ?thesis
    unfolding run by (simp add: eval_defs tripleHeap_def)
qed

section \<open>C5: the order of getAll\<close>

text \<open>
  C5, as the code has it. \<open>getAll\<close> returns when every surviving entry has a numeric
  timestamp, as all entries stored by \<open>add\<close> have. It first removes the expired entries
  and then returns the records of the survivors, each once, sorted by timestamp with the
  newest first. \<open>Array.prototype.sort\<close> is stable, so records with equal timestamps keep
  the key order of the map: the record whose id stands earlier in the map comes first. An
  id stands where it was first inserted since it was last absent; admitting it again
  while it is present replaces the record and keeps the place.
\<close>

theorem getAll_newest_first_stable:
  "(storedRecordsTimed h st \<longrightarrow> (\<exists>xs. fst (getAll now h st) = Inr xs))
   \<and> (\<forall>xs st'. getAll now h st = (Inr xs, st') \<longrightarrow>
          elements st' = filter (\<lambda>(eid, ent). now \<le> expiresAt ent) (elements st)
          \<and> length xs = length (elements st')
          \<and> set xs = set (map (\<lambda>(eid, ent). data ent) (elements st'))
          \<and> sorted_wrt (\<lambda>a b. timestampOf h a \<ge> timestampOf h b) xs
          \<and> (\<forall>t. filter (\<lambda>a. timestampOf h a = t) xs
                   = filter (\<lambda>a. timestampOf h a = t)
                       (map (\<lambda>(eid, ent). data ent) (elements st'))))"
proof (intro conjI impI allI)
  assume "storedRecordsTimed h st"
  then show "\<exists>xs. fst (getAll now h st) = Inr xs"
    by (rule getAll_returns)
next
  fix xs st'
  assume g: "getAll now h st = (Inr xs, st')"
  define survivors where
    "survivors = filter (\<lambda>(eid :: jsval, ent). now \<le> expiresAt ent) (elements st)"
  from getAll_result [OF g]
  have xs: "xs = sort_key (\<lambda>a. - timestampOf h a) (map (\<lambda>(eid, ent). data ent) survivors)"
    and st': "st' = st\<lparr>elements := survivors\<rparr>"
    by (simp_all add: survivors_def)
  show "elements st' = filter (\<lambda>(eid, ent). now \<le> expiresAt ent) (elements st)"
    using st' by (simp add: survivors_def)
  show "length xs = length (elements st')"
    using xs st' by simp
  show "set xs = set (map (\<lambda>(eid, ent). data ent) (elements st'))"
    using xs st' by simp
  have "sorted (map (\<lambda>a. - timestampOf h a) xs)"
    unfolding xs by (rule sorted_sort_key)
  then show "sorted_wrt (\<lambda>a b. timestampOf h a \<ge> timestampOf h b) xs"
    by (simp add: sorted_map)
  fix t
  have "filter (\<lambda>a. - timestampOf h a = - t) xs
          = filter (\<lambda>a. - timestampOf h a = - t) (map (\<lambda>(eid, ent). data ent) survivors)"
    unfolding xs by (rule sort_key_stable)
  then show "filter (\<lambda>a. timestampOf h a = t) xs
          = filter (\<lambda>a. timestampOf h a = t) (map (\<lambda>(eid, ent). data ent) (elements st'))"
    using st' by simp
qed

theorem getAll_newest_first_stable_witness:
  "\<exists>h st xs st'.
     admitAll [(0, [], JRef 0), (1, [], JRef 1), (2, [], JRef 2)] (tripleHeap, exStore 50 1000) = (h, st)
     \<and> storedRecordsTimed h st
     \<and> getAll 5 h st = (Inr xs, st')
     \<and> elements st' = elements st
     \<and> length xs = 3
     \<and> sorted_wrt (\<lambda>a b. timestampOf h a \<ge> timestampOf h b) xs"
proof -
  obtain h st where run:
    "admitAll [(0, [], JRef 0), (1, [], JRef 1), (2, [], JRef 2)] (tripleHeap, exStore 50 1000) = (h, st)"
    by (rule prod.exhaust)
  have "elements (snd (admitAll [(0, [], JRef 0), (1, [], JRef 1), (2, [], JRef 2)]
                        (tripleHeap, exStore 50 1000)))
          = [(JStr ''a'', \<lparr>data = 3, expiresAt = 1000\<rparr>), (JStr ''b'', \<lparr>data = 4, expiresAt = 1001\<rparr>),
             (JStr ''c'', \<lparr>data = 5, expiresAt = 1002\<rparr>)]"
    by (simp add: eval_defs tripleHeap_def)
  with run have els: "elements st
          = [(JStr ''a'', \<lparr>data = 3, expiresAt = 1000\<rparr>), (JStr ''b'', \<lparr>data = 4, expiresAt = 1001\<rparr>),
             (JStr ''c'', \<lparr>data = 5, expiresAt = 1002\<rparr>)]"
    by simp
  have "storedRecordsTimed tripleHeap (exStore 50 1000)"
    unfolding exStore_def by (rule new_store_timed)
  then have "storedRecordsTimed
               (fst (admitAll [(0, [], JRef 0), (1, [], JRef 1), (2, [], JRef 2)]
                       (tripleHeap, exStore 50 1000)))
               (snd (admitAll [(0, [], JRef 0), (1, [], JRef 1), (2, [], JRef 2)]
                       (tripleHeap, exStore 50 1000)))"
    by (rule admitAll_timed)
  with run have timed: "storedRecordsTimed h st"
    by simp
  note r = getAll_newest_first_stable [where h = h and st = st and now = 5]
  from r timed obtain xs where "fst (getAll 5 h st) = Inr xs"
    by blast
  then have g: "getAll 5 h st = (Inr xs, snd (getAll 5 h st))"
    by (simp add: prod_eq_iff)
  from r g have post: "elements (snd (getAll 5 h st))
            = filter (\<lambda>(eid, ent). 5 \<le> expiresAt ent) (elements st)"
    and len: "length xs = length (elements (snd (getAll 5 h st)))"
    and ord: "sorted_wrt (\<lambda>a b. timestampOf h a \<ge> timestampOf h b) xs"
    by blast+
  from post els have same: "elements (snd (getAll 5 h st)) = elements st"
    by simp
  with len els have three: "length xs = 3"
    by simp
  from run timed g same three ord
  have "admitAll [(0, [], JRef 0), (1, [], JRef 1), (2, [], JRef 2)] (tripleHeap, exStore 50 1000) = (h, st)
     \<and> storedRecordsTimed h st
     \<and> getAll 5 h st = (Inr xs, snd (getAll 5 h st))
     \<and> elements (snd (getAll 5 h st)) = elements st
     \<and> length xs = 3
     \<and> sorted_wrt (\<lambda>a b. timestampOf h a \<ge> timestampOf h b) xs"
    by (simp only: simp_thms)
  then show ?thesis
    by (intro exI)
qed

theorem getAll_tie_order_counterexample:
  "elements (snd (admitAll [(0, [], JRef 0), (1, [], JRef 1)] (tieHeap, exStore 50 1000)))
     = [(JStr ''a'', \<lparr>data = 2, expiresAt = 1000\<rparr>), (JStr ''b'', \<lparr>data = 3, expiresAt = 1001\<rparr>)]
   \<and> timestampOf (fst (admitAll [(0, [], JRef 0), (1, [], JRef 1)] (tieHeap, exStore 50 1000))) 2 = 5
   \<and> timestampOf (fst (admitAll [(0, [], JRef 0), (1, [], JRef 1)] (tieHeap, exStore 50 1000))) 3 = 5
   \<and> fst (getAll 2 (fst (admitAll [(0, [], JRef 0), (1, [], JRef 1)] (tieHeap, exStore 50 1000)))
                    (snd (admitAll [(0, [], JRef 0), (1, [], JRef 1)] (tieHeap, exStore 50 1000))))
     = Inr [2, 3]"
proof -
  have run: "admitAll [(0, [], JRef 0), (1, [], JRef 1)] (tieHeap, exStore 50 1000)
          = (tieHeap @ [hget tieHeap 0, hget tieHeap 1],
             (exStore 50 1000)\<lparr>elements :=
                [(JStr ''a'', \<lparr>data = 2, expiresAt = 1000\<rparr>),
                 (JStr ''b'', \<lparr>data = 3, expiresAt = 1001\<rparr>)]\<rparr>)"
    by (simp add: eval_defs tieHeap_def)
  show ?thesis
    unfolding run by (simp add: eval_defs tieHeap_def)
qed

lemma getAll_tie_after_readmission:
  "elements (snd (admitAll [(0, [], JRef 0), (1, [], JRef 1), (2, [], JRef 0)]
                     (tieHeap, exStore 50 1000)))
     = [(JStr ''a'', \<lparr>data = 4, expiresAt = 1002\<rparr>), (JStr ''b'', \<lparr>data = 3, expiresAt = 1001\<rparr>)]
   \<and> fst (getAll 3 (fst (admitAll [(0, [], JRef 0), (1, [], JRef 1), (2, [], JRef 0)]
                             (tieHeap, exStore 50 1000)))
                    (snd (admitAll [(0, [], JRef 0), (1, [], JRef 1), (2, [], JRef 0)]
                             (tieHeap, exStore 50 1000))))
     = Inr [4, 3]"
proof -
  have run: "admitAll [(0, [], JRef 0), (1, [], JRef 1), (2, [], JRef 0)] (tieHeap, exStore 50 1000)
          = (tieHeap @ [hget tieHeap 0, hget tieHeap 1, hget tieHeap 0],
             (exStore 50 1000)\<lparr>elements :=
                [(JStr ''a'', \<lparr>data = 4, expiresAt = 1002\<rparr>),
                 (JStr ''b'', \<lparr>data = 3, expiresAt = 1001\<rparr>)]\<rparr>)"
    by (simp add: eval_defs tieHeap_def)
  show ?thesis
    unfolding run by (simp add: eval_defs tieHeap_def)
qed

section \<open>C6: search\<close>

text \<open>
  C6, for stores whose records are typed as \<open>CapturedElement\<close> declares. When the
  records that \<open>getAll\<close> returns have strings in \<open>selector\<close>, \<open>text\<close>, \<open>html\<close> and
  \<open>url\<close>, \<open>search\<close> returns exactly those of them for which the lower-case query is a
  substring of the lower-case form of at least one of the four fields, in the order of
  \<open>getAll\<close>, and leaves the store as \<open>getAll\<close> leaves it. \<open>getAll\<close> returns on every
  store whose entries have numeric timestamps.
\<close>

theorem search_exact_on_typed_records:
  "(storedRecordsTimed h st \<longrightarrow> (\<exists>xs. fst (getAll now h st) = Inr xs))
   \<and> (\<forall>xs st'. getAll now h st = (Inr xs, st') \<and> list_all (hasStringFields h) xs \<longrightarrow>
          search query now h st =
            (Inr (filter (\<lambda>a. \<exists>f \<in> set [''selector'', ''text'', ''html'', ''url''].
                             \<exists>s pre post. getProp (hget h a) f = JStr s
                                \<and> toLowerCase s = pre @ toLowerCase query @ post) xs),
             st'))"
proof (intro conjI impI allI)
  assume "storedRecordsTimed h st"
  then show "\<exists>xs. fst (getAll now h st) = Inr xs"
    by (rule getAll_returns)
next
  fix xs st'
  assume a: "getAll now h st = (Inr xs, st') \<and> list_all (hasStringFields h) xs"
  then have g: "getAll now h st = (Inr xs, st')" and typed: "list_all (hasStringFields h) xs"
    by simp_all
  define q where "q = toLowerCase query"
  define hit where "hit = (\<lambda>a. \<exists>f \<in> set [''selector'', ''text'', ''html'', ''url''].
                             \<exists>s pre post. getProp (hget h a) f = JStr s
                                \<and> toLowerCase s = pre @ q @ post)"
  have m: "matchesQuery h q a = Inr (hit a)" if "a \<in> set xs" for a
  proof -
    from that typed have "hasStringFields h a"
      by (simp add: list_all_iff)
    then have "matchesQuery h q a =
           Inr (\<exists>f \<in> set [''selector'', ''text'', ''html'', ''url''].
                  \<exists>s. getProp (hget h a) f = JStr s \<and> strIncludes (toLowerCase s) q)"
      by (rule matchesQuery_strings)
    also have "(\<exists>f \<in> set [''selector'', ''text'', ''html'', ''url''].
                  \<exists>s. getProp (hget h a) f = JStr s \<and> strIncludes (toLowerCase s) q) = hit a"
      unfolding hit_def strIncludes_iff by blast
    finally show ?thesis .
  qed
  then have "\<forall>a \<in> set xs. \<exists>b. matchesQuery h q a = Inr b"
    by blast
  then have "filterE (matchesQuery h q) xs = Inr (filter (\<lambda>a. matchesQuery h q a = Inr True) xs)"
    by (rule filterE_total)
  also have "filter (\<lambda>a. matchesQuery h q a = Inr True) xs = filter hit xs"
    using m by (intro filter_cong) auto
  finally have "filterE (matchesQuery h q) xs = Inr (filter hit xs)" .
  with g have "search query now h st = (Inr (filter hit xs), st')"
    by (simp add: search_def Let_def q_def)
  then show "search query now h st =
            (Inr (filter (\<lambda>a. \<exists>f \<in> set [''selector'', ''text'', ''html'', ''url''].
                             \<exists>s pre post. getProp (hget h a) f = JStr s
                                \<and> toLowerCase s = pre @ toLowerCase query @ post) xs),
             st')"
    by (simp add: hit_def q_def)
qed

theorem search_exact_on_typed_records_witness:
  "\<exists>h st xs st'.
     admitAll [(0, [], JRef 0), (1, [], JRef 1), (2, [], JRef 2)] (tripleHeap, exStore 50 1000) = (h, st)
     \<and> storedRecordsTimed h st
     \<and> getAll 5 h st = (Inr xs, st')
     \<and> list_all (hasStringFields h) xs
     \<and> search ''Y'' 5 h st =
           (Inr (filter (\<lambda>a. \<exists>f \<in> set [''selector'', ''text'', ''html'', ''url''].
                             \<exists>s pre post. getProp (hget h a) f = JStr s
                                \<and> toLowerCase s = pre @ toLowerCase ''Y'' @ post) xs),
            st')
     \<and> fst (search ''Y'' 5 h st) = Inr [4]"
proof -
  have run: "admitAll [(0, [], JRef 0), (1, [], JRef 1), (2, [], JRef 2)] (tripleHeap, exStore 50 1000)
          = (tripleHeap @ [hget tripleHeap 0, hget tripleHeap 1, hget tripleHeap 2],
             (exStore 50 1000)\<lparr>elements :=
                [(JStr ''a'', \<lparr>data = 3, expiresAt = 1000\<rparr>),
                 (JStr ''b'', \<lparr>data = 4, expiresAt = 1001\<rparr>),
                 (JStr ''c'', \<lparr>data = 5, expiresAt = 1002\<rparr>)]\<rparr>)"
    by (simp add: eval_defs tripleHeap_def)
  define h where "h = tripleHeap @ [hget tripleHeap 0, hget tripleHeap 1, hget tripleHeap 2]"
  define st where "st = (exStore 50 1000)\<lparr>elements :=
                [(JStr ''a'', \<lparr>data = 3, expiresAt = 1000\<rparr>),
                 (JStr ''b'', \<lparr>data = 4, expiresAt = 1001\<rparr>),
                 (JStr ''c'', \<lparr>data = 5, expiresAt = 1002\<rparr>)]\<rparr>"
  have lower: "char_of (121 :: nat) = CHR ''y''"
    by code_simp
  have all: "getAll 5 h st = (Inr [5, 4, 3], st)"
    by (simp add: h_def st_def eval_defs tripleHeap_def)
  have typed: "list_all (hasStringFields h) [5, 4, 3]"
    by (simp add: h_def hasStringFields_def eval_defs tripleHeap_def)
  have timed: "storedRecordsTimed h st"
    by (simp add: h_def st_def storedRecordsTimed_def eval_defs tripleHeap_def)
  have found: "fst (search ''Y'' 5 h st) = Inr [4]"
    by (simp add: h_def st_def eval_defs tripleHeap_def lower)
  from search_exact_on_typed_records [where h = h and st = st and now = 5 and query = "''Y''"]
    all typed
  have "search ''Y'' 5 h st =
           (Inr (filter (\<lambda>a. \<exists>f \<in> set [''selector'', ''text'', ''html'', ''url''].
                             \<exists>s pre post. getProp (hget h a) f = JStr s
                                \<and> toLowerCase s = pre @ toLowerCase ''Y'' @ post) [5, 4, 3]),
            st)"
    by blast
  with run all typed timed found
  have "admitAll [(0, [], JRef 0), (1, [], JRef 1), (2, [], JRef 2)] (tripleHeap, exStore 50 1000) = (h, st)
     \<and> storedRecordsTimed h st
     \<and> getAll 5 h st = (Inr [5, 4, 3], st)
     \<and> list_all (hasStringFields h) [5, 4, 3]
     \<and> search ''Y'' 5 h st =
           (Inr (filter (\<lambda>a. \<exists>f \<in> set [''selector'', ''text'', ''html'', ''url''].
                             \<exists>s pre post. getProp (hget h a) f = JStr s
                                \<and> toLowerCase s = pre @ toLowerCase ''Y'' @ post) [5, 4, 3]),
            st)
     \<and> fst (search ''Y'' 5 h st) = Inr [4]"
    unfolding h_def st_def by (simp only: simp_thms)
  then show ?thesis
    by (intro exI)
qed

theorem search_untyped_record_counterexample:
  "fst (add 0 nullHtmlHeap (JRef 0) (exStore 50 1000)) = Inr True
   \<and> elements (snd (snd (add 0 nullHtmlHeap (JRef 0) (exStore 50 1000))))
        = [(JStr ''a'', \<lparr>data = 1, expiresAt = 1000\<rparr>)]
   \<and> getProp (hget (fst (snd (add 0 nullHtmlHeap (JRef 0) (exStore 50 1000)))) 1) ''html'' = JNull
   \<and> fst (search ''zzz'' 1 (fst (snd (add 0 nullHtmlHeap (JRef 0) (exStore 50 1000))))
                           (snd (snd (add 0 nullHtmlHeap (JRef 0) (exStore 50 1000)))))
        = Inl TypeError"
proof -
  have run: "add 0 nullHtmlHeap (JRef 0) (exStore 50 1000)
          = (Inr True, nullHtmlHeap @ [hget nullHtmlHeap 0],
             (exStore 50 1000)\<lparr>elements := [(JStr ''a'', \<lparr>data = 1, expiresAt = 1000\<rparr>)]\<rparr>)"
    by (simp add: eval_defs nullHtmlHeap_def)
  show ?thesis
    unfolding run by (simp add: eval_defs nullHtmlHeap_def)
qed

section \<open>C10: search is not total on the records that add accepts\<close>

text \<open>
  C10. Validation only asks that \<open>html\<close> and \<open>text\<close> are present: whatever values the
  two fields hold, the verdict is the same. A record whose \<open>text\<close> is \<open>null\<close> passes
  validation and is admitted, and a later \<open>search\<close> whose query does not match the
  selector throws a \<open>TypeError\<close> at \<open>element.text.toLowerCase()\<close>.
\<close>

theorem search_throws_on_admitted_record:
  "(\<forall>eid ts sel html text html' text'.
       validateCapturedElement [mkRecord eid ts sel html text] (JRef 0)
         = validateCapturedElement [mkRecord eid ts sel html' text'] (JRef 0))
   \<and> validateCapturedElement nullTextHeap (JRef 0)
   \<and> fst (add 0 nullTextHeap (JRef 0) (exStore 50 1000)) = Inr True
   \<and> elements (snd (snd (add 0 nullTextHeap (JRef 0) (exStore 50 1000))))
        = [(JStr ''a'', \<lparr>data = 1, expiresAt = 1000\<rparr>)]
   \<and> getProp (hget (fst (snd (add 0 nullTextHeap (JRef 0) (exStore 50 1000)))) 1) ''text'' = JNull
   \<and> fst (search ''zzz'' 1 (fst (snd (add 0 nullTextHeap (JRef 0) (exStore 50 1000))))
                           (snd (snd (add 0 nullTextHeap (JRef 0) (exStore 50 1000)))))
        = Inl TypeError"
proof -
  have blind: "\<forall>eid ts sel html text html' text'.
       validateCapturedElement [mkRecord eid ts sel html text] (JRef 0)
         = validateCapturedElement [mkRecord eid ts sel html' text'] (JRef 0)"
    by (simp add: validateCapturedElement_def mkRecord_def hget_def getProp_def hasProp_def
          required_def Let_def)
  have valid: "validateCapturedElement nullTextHeap (JRef 0)"
    by (simp add: eval_defs nullTextHeap_def)
  have run: "add 0 nullTextHeap (JRef 0) (exStore 50 1000)
          = (Inr True, nullTextHeap @ [hget nullTextHeap 0],
             (exStore 50 1000)\<lparr>elements := [(JStr ''a'', \<lparr>data = 1, expiresAt = 1000\<rparr>)]\<rparr>)"
    by (simp add: eval_defs nullTextHeap_def)
  have rest: "fst (add 0 nullTextHeap (JRef 0) (exStore 50 1000)) = Inr True
   \<and> elements (snd (snd (add 0 nullTextHeap (JRef 0) (exStore 50 1000))))
        = [(JStr ''a'', \<lparr>data = 1, expiresAt = 1000\<rparr>)]
   \<and> getProp (hget (fst (snd (add 0 nullTextHeap (JRef 0) (exStore 50 1000)))) 1) ''text'' = JNull
   \<and> fst (search ''zzz'' 1 (fst (snd (add 0 nullTextHeap (JRef 0) (exStore 50 1000))))
                           (snd (snd (add 0 nullTextHeap (JRef 0) (exStore 50 1000)))))
        = Inl TypeError"
    unfolding run by (simp add: eval_defs nullTextHeap_def)
  from blind valid rest show ?thesis
    by (intro conjI) simp_all
qed

theorem search_throws_on_admitted_record_witness:
  "validateCapturedElement [mkRecord ''a'' 5 ''div'' (JNum 7) (JBool True)] (JRef 0)
   \<and> validateCapturedElement [mkRecord ''a'' 5 ''div'' (JStr ''<p>x</p>'') JNull] (JRef 0)
   \<and> fst (search ''zzz'' 1 (fst (snd (add 0 nullTextHeap (JRef 0) (exStore 50 1000))))
                           (snd (snd (add 0 nullTextHeap (JRef 0) (exStore 50 1000)))))
        = Inl TypeError"
proof -
  note r = search_throws_on_admitted_record
  from r have valid: "validateCapturedElement nullTextHeap (JRef 0)"
    by (simp only:)
  then have one: "validateCapturedElement [mkRecord ''a'' 5 ''div'' (JStr ''<p>x</p>'') JNull] (JRef 0)"
    by (simp only: nullTextHeap_def)
  from r have "validateCapturedElement [mkRecord ''a'' 5 ''div'' (JNum 7) (JBool True)] (JRef 0)
         = validateCapturedElement [mkRecord ''a'' 5 ''div'' (JStr ''<p>x</p>'') JNull] (JRef 0)"
    by blast
  with one have other: "validateCapturedElement [mkRecord ''a'' 5 ''div'' (JNum 7) (JBool True)] (JRef 0)"
    by (simp only:)
  from r have "fst (search ''zzz'' 1 (fst (snd (add 0 nullTextHeap (JRef 0) (exStore 50 1000))))
                           (snd (snd (add 0 nullTextHeap (JRef 0) (exStore 50 1000)))))
        = Inl TypeError"
    by (simp only:)
  with other one show ?thesis
    by (simp only: simp_thms)
qed

end
